theory Spec2Isabelle
  imports Main
begin

text \<open>
  The JSON-RPC engine of the editor's language client (src/editorlsp/jsonRpc.js), the
  WebSocket transport under it (src/transport.js, kept as src/unnamed/part_001) and the
  session client on top (src/editorlsp/lspClient.js), as functions on an explicit state.
  Line numbers are those of the source files.
\<close>

section \<open>JavaScript values\<close>

text \<open>
  Values that cross the wire are JSON. A JavaScript value that may also be
  \<^verbatim>\<open>undefined\<close> (a property that is not there, an argument that was not passed) is a
  \<open>json option\<close>, with \<open>None\<close> for \<^verbatim>\<open>undefined\<close>. Numbers are the integers (a number
  with a fraction is truthy and is no request id, like an integer that is not zero and
  not pending); request ids are naturals (JavaScript numbers are exact on them below
  \<open>2 ^ 53\<close>, a count of requests no session reaches). An object is the list of its
  own properties.
\<close>

datatype json =
    JNull
  | JBool bool
  | JNum int
  | JStr string
  | JArr "json list"
  | JObj "(string \<times> json) list"

type_synonym jsval = "json option"

text \<open>\<^verbatim>\<open>if (v)\<close>: the falsy values are undefined, null, false, 0 and the empty string.\<close>

fun truthy :: "jsval \<Rightarrow> bool" where
  "truthy None = False"
| "truthy (Some JNull) = False"
| "truthy (Some (JBool b)) = b"
| "truthy (Some (JNum n)) = (n \<noteq> 0)"
| "truthy (Some (JStr s)) = (s \<noteq> [])"
| "truthy (Some (JArr xs)) = True"
| "truthy (Some (JObj kvs)) = True"

text \<open>
  \<^verbatim>\<open>v.k\<close> on a value that is neither null nor undefined, for the property names the
  source reads (id, error, result, method, params, message, code, data, capabilities,
  textDocumentSync, change): none of them is inherited from a built-in prototype, so
  only an object that owns the property yields a value.
\<close>

fun get_prop :: "json \<Rightarrow> string \<Rightarrow> jsval" where
  "get_prop (JObj kvs) k = map_of kvs k"
| "get_prop v k = None"

text \<open>\<^verbatim>\<open>a || b\<close>\<close>

definition js_or :: "jsval \<Rightarrow> jsval \<Rightarrow> jsval" where
  "js_or a b = (if truthy a then a else b)"

text \<open>
  \<^verbatim>\<open>String(v)\<close>, the conversion that \<^verbatim>\<open>new Error(v)\<close> applies to its argument: a string
  is itself, an integer its decimal digits (as JavaScript prints the integers below
  \<open>10 ^ 21\<close>), an object \<^verbatim>\<open>'[object Object]'\<close>, an array its elements converted and
  joined by commas, with a null element giving nothing.
\<close>

fun decimal :: "nat \<Rightarrow> string" where
  "decimal n =
     (if n < 10 then [''0123456789'' ! n]
      else decimal (n div 10) @ [''0123456789'' ! (n mod 10)])"

declare decimal.simps [simp del]

fun ToString :: "json \<Rightarrow> string"
  and join_comma :: "json list \<Rightarrow> string" where
  "ToString JNull = ''null''"
| "ToString (JBool b) = (if b then ''true'' else ''false'')"
| "ToString (JNum n) = (if n < 0 then ''-'' @ decimal (nat (- n)) else decimal (nat n))"
| "ToString (JStr x) = x"
| "ToString (JArr xs) = join_comma xs"
| "ToString (JObj kvs) = ''[object Object]''"
| "join_comma [] = []"
| "join_comma [x] = (if x = JNull then [] else ToString x)"
| "join_comma (x # y # ys) = (if x = JNull then [] else ToString x) @ '','' @ join_comma (y # ys)"

text \<open>The message of \<^verbatim>\<open>new Error(v)\<close>: empty when \<open>v\<close> is undefined.\<close>

definition Error_message :: "jsval \<Rightarrow> string" where
  "Error_message v = (case v of None \<Rightarrow> [] | Some x \<Rightarrow> ToString x)"

datatype js_type = T_undefined | T_object | T_boolean | T_number | T_string

fun typeof :: "jsval \<Rightarrow> js_type" where
  "typeof None = T_undefined"
| "typeof (Some JNull) = T_object"
| "typeof (Some (JBool b)) = T_boolean"
| "typeof (Some (JNum n)) = T_number"
| "typeof (Some (JStr s)) = T_string"
| "typeof (Some (JArr xs)) = T_object"
| "typeof (Some (JObj kvs)) = T_object"

text \<open>
  What is thrown, and what a future is rejected with.
  \<^item> \<open>WebSocketNotOpen\<close>: \<^verbatim>\<open>new Error('WebSocket not open')\<close> of the transport;
  \<^item> \<open>TypeError\<close>: a property read on null or undefined;
  \<^item> \<open>RpcTimeout m\<close>: \<^verbatim>\<open>new Error(`RPC timeout for ${m}`)\<close>;
  \<^item> \<open>OperationCanceled\<close>: \<^verbatim>\<open>new DOMException('Operation canceled', 'AbortError')\<close>;
  \<^item> \<open>RpcError m c d\<close>: an \<^verbatim>\<open>Error\<close> whose message is the string \<open>m\<close>, with
    \<^verbatim>\<open>code = c\<close> and \<^verbatim>\<open>data = d\<close>.
\<close>

datatype js_error =
    WebSocketNotOpen
  | TypeError
  | RpcTimeout string
  | OperationCanceled
  | RpcError string jsval jsval

datatype settlement = Resolved jsval | Rejected js_error

datatype promise = Unsettled | Settled settlement

section \<open>The transport (src/transport.js, in src/unnamed/part_001)\<close>

datatype readyState = CONNECTING | OPEN | CLOSING | CLOSED

text \<open>
  \<open>ws\<close> is the field \<^verbatim>\<open>_ws\<close>: null, or the socket with its ready state. \<open>wire\<close> lists
  what was handed to \<^verbatim>\<open>WebSocket.send\<close>, oldest first, each frame as the payload
  that \<^verbatim>\<open>JSON.stringify\<close> serialised.
\<close>

record WebSocketTransport =
  ws :: "readyState option"
  wire :: "json list"

definition new_WebSocketTransport :: WebSocketTransport where
  "new_WebSocketTransport = \<lparr>ws = None, wire = []\<rparr>"

definition connect :: "WebSocketTransport \<Rightarrow> WebSocketTransport" where
  "connect t =
     (if ws t \<noteq> None \<and> (ws t = Some OPEN \<or> ws t = Some CONNECTING) then t
      else t\<lparr>ws := Some CONNECTING\<rparr>)"

definition disconnect :: "WebSocketTransport \<Rightarrow> WebSocketTransport" where
  "disconnect t = t\<lparr>ws := None\<rparr>"

definition send :: "json \<Rightarrow> WebSocketTransport \<Rightarrow> js_error + WebSocketTransport" where
  "send data t =
     (if ws t = None \<or> ws t \<noteq> Some OPEN then Inl WebSocketNotOpen
      else Inr (t\<lparr>wire := wire t @ [data]\<rparr>))"

text \<open>The browser moves the current socket to another ready state (open, close).\<close>

definition socket_event :: "readyState \<Rightarrow> WebSocketTransport \<Rightarrow> WebSocketTransport" where
  "socket_event r t = (case ws t of None \<Rightarrow> t | Some old \<Rightarrow> t\<lparr>ws := Some r\<rparr>)"

text \<open>One tick of the keepalive interval.\<close>

definition keepalive :: "WebSocketTransport \<Rightarrow> WebSocketTransport" where
  "keepalive t =
     (if ws t = Some OPEN
      then t\<lparr>wire := wire t @ [JObj [(''jsonrpc'', JStr ''2.0''), (''method'', JStr ''$/keepalive'')]]\<rparr>
      else t)"

section \<open>The JSON-RPC engine (src/editorlsp/jsonRpc.js)\<close>

text \<open>
  A pending entry \<^verbatim>\<open>{resolve, reject, timer, method}\<close>: \<open>resolve\<close> names the promise
  that the entry's two functions settle, \<open>timer\<close> the handle of its timeout, \<open>e_method\<close> its \<^verbatim>\<open>method\<close>.
\<close>

record entry =
  resolve :: nat
  timer :: nat
  e_method :: string

text \<open>The closure run by a request's timeout: it holds the id, the method and \<^verbatim>\<open>reject\<close>.\<close>

record timeout_closure =
  t_id :: nat
  t_method :: string
  t_reject :: nat

text \<open>The closure run on abort: it holds the id, the timer and \<^verbatim>\<open>reject\<close>.\<close>

record abort_closure =
  a_id :: nat
  a_timer :: nat
  a_reject :: nat

datatype log_line =
    LogRequest string
  | LogNotify string
  | LogParseError string

text \<open>
  The engine with the part of the runtime it acts on.
  \<^item> \<open>next_id\<close> is \<^verbatim>\<open>_id\<close>, \<open>pending\<close> is \<^verbatim>\<open>_pending\<close>, \<open>handlers\<close> is \<^verbatim>\<open>_handlers\<close>
    (a subscriber is named by a number; a set keeps insertion order);
  \<^item> \<open>timers\<close>: the armed timeouts, by handle, each with its delay and closure;
  \<^item> \<open>promises\<close>: the promises \<^verbatim>\<open>request\<close> returned;
  \<^item> \<open>listeners\<close>: the abort listeners, each with the signal it is registered on;
    \<open>aborted\<close>: the signals that have fired;
  \<^item> \<open>logged\<close>: the calls of \<^verbatim>\<open>log\<close>; \<open>calls\<close>: the subscriber invocations
    \<^verbatim>\<open>h(params)\<close>, in order.
  \<^verbatim>\<open>request\<close> names the promise and the timer it creates by the request's id.
\<close>

record JsonRpc =
  transport :: WebSocketTransport
  timeoutMs :: nat
  next_id :: nat
  pending :: "nat \<rightharpoonup> entry"
  handlers :: "string \<rightharpoonup> nat list"
  timers :: "nat \<rightharpoonup> nat \<times> timeout_closure"
  promises :: "nat \<rightharpoonup> promise"
  listeners :: "(nat \<times> abort_closure) list"
  aborted :: "nat list"
  logged :: "log_line list"
  calls :: "(nat \<times> jsval) list"

definition new_JsonRpc :: "WebSocketTransport \<Rightarrow> nat option \<Rightarrow> JsonRpc" where
  "new_JsonRpc t opts_timeoutMs =
     \<lparr>transport = t,
      timeoutMs = (case opts_timeoutMs of None \<Rightarrow> 10000 | Some ms \<Rightarrow> ms),
      next_id = 1,
      pending = Map.empty,
      handlers = Map.empty,
      timers = Map.empty,
      promises = Map.empty,
      listeners = [],
      aborted = [],
      logged = [],
      calls = []\<rparr>"

text \<open>\<^verbatim>\<open>resolve(v)\<close> and \<^verbatim>\<open>reject(e)\<close>: a promise that is settled stays as it is.\<close>

definition settle :: "nat \<Rightarrow> settlement \<Rightarrow> JsonRpc \<Rightarrow> JsonRpc" where
  "settle p out s =
     (case promises s p of
        Some Unsettled \<Rightarrow> s\<lparr>promises := (promises s)(p \<mapsto> Settled out)\<rparr>
      | _ \<Rightarrow> s)"

definition clearTimeout :: "nat \<Rightarrow> JsonRpc \<Rightarrow> JsonRpc" where
  "clearTimeout h s = s\<lparr>timers := (timers s)(h := None)\<rparr>"

text \<open>
  The payload of a request or a notification; \<^verbatim>\<open>JSON.stringify\<close> leaves out a
  property whose value is undefined.
\<close>

definition stringify :: "(string \<times> jsval) list \<Rightarrow> json" where
  "stringify kvs = JObj (concat (map (\<lambda>(k, v). case v of None \<Rightarrow> [] | Some x \<Rightarrow> [(k, x)]) kvs))"

definition notify :: "string \<Rightarrow> jsval \<Rightarrow> JsonRpc \<Rightarrow> js_error option \<times> JsonRpc" where
  "notify m params s =
     (let payload = stringify [(''jsonrpc'', Some (JStr ''2.0'')), (''method'', Some (JStr m)),
                            (''params'', params)]
      in case send payload (transport s) of
           Inl e \<Rightarrow> (Some e, s)
         | Inr t \<Rightarrow> (None, s\<lparr>transport := t, logged := logged s @ [LogNotify m]\<rparr>))"

text \<open>\<^verbatim>\<open>this._id++\<close>: the value is the id taken, the counter moves on.\<close>

definition take_id :: "JsonRpc \<Rightarrow> nat \<times> JsonRpc" where
  "take_id s = (next_id s, s\<lparr>next_id := next_id s + 1\<rparr>)"

text \<open>
  \<^verbatim>\<open>request\<close> returns the promise (named by the id) or throws. The id is taken
  first; a \<^verbatim>\<open>send\<close> that throws leaves the function before the promise is made.
\<close>

definition request :: "string \<Rightarrow> jsval \<Rightarrow> nat option \<Rightarrow> JsonRpc \<Rightarrow> (js_error + nat) \<times> JsonRpc" where
  "request m params signal s =
     (case take_id s of (rid, s1) \<Rightarrow>
      let payload = stringify [(''jsonrpc'', Some (JStr ''2.0'')), (''id'', Some (JNum (int rid))),
                            (''method'', Some (JStr m)), (''params'', params)]
      in case send payload (transport s1) of
           Inl e \<Rightarrow> (Inl e, s1)
         | Inr t \<Rightarrow>
             let s2 = s1\<lparr>transport := t, logged := logged s1 @ [LogRequest m]\<rparr>;
                 s3 = s2\<lparr>promises := (promises s2)(rid \<mapsto> Unsettled),
                         timers := (timers s2)(rid \<mapsto>
                           (timeoutMs s2, \<lparr>t_id = rid, t_method = m, t_reject = rid\<rparr>))\<rparr>;
                 s4 = s3\<lparr>pending := (pending s3)(rid \<mapsto> \<lparr>resolve = rid, timer = rid, e_method = m\<rparr>)\<rparr>;
                 s5 = (case signal of
                         None \<Rightarrow> s4
                       | Some g \<Rightarrow> s4\<lparr>listeners := listeners s4 @
                           [(g, \<lparr>a_id = rid, a_timer = rid, a_reject = rid\<rparr>)]\<rparr>)
             in (Inr rid, s5))"

text \<open>The timeout of handle \<open>h\<close> fires, if it is still armed.\<close>

definition timer_fires :: "nat \<Rightarrow> JsonRpc \<Rightarrow> JsonRpc" where
  "timer_fires h s =
     (case timers s h of
        None \<Rightarrow> s
      | Some (delay, c) \<Rightarrow>
          let s1 = s\<lparr>timers := (timers s)(h := None)\<rparr>;
              s2 = s1\<lparr>pending := (pending s1)(t_id c := None)\<rparr>
          in settle (t_reject c) (Rejected (RpcTimeout (t_method c))) s2)"

text \<open>The abort listener of one request; what \<^verbatim>\<open>notify\<close> throws is swallowed.\<close>

definition abort_listener :: "abort_closure \<Rightarrow> JsonRpc \<Rightarrow> JsonRpc" where
  "abort_listener c s =
     (let s1 = snd (notify ''$/cancelRequest'' (Some (JObj [(''id'', JNum (int (a_id c)))])) s);
          s2 = clearTimeout (a_timer c) s1;
          s3 = s2\<lparr>pending := (pending s2)(a_id c := None)\<rparr>
      in settle (a_reject c) (Rejected OperationCanceled) s3)"

text \<open>
  The signal \<open>g\<close> aborts: its listeners run once, in the order they were added. A
  signal fires at most once, so a listener added later never runs.
\<close>

definition abort :: "nat \<Rightarrow> JsonRpc \<Rightarrow> JsonRpc" where
  "abort g s =
     (if g \<in> set (aborted s) then s
      else fold abort_listener (map snd (filter (\<lambda>l. fst l = g) (listeners s)))
             (s\<lparr>aborted := g # aborted s,
                listeners := filter (\<lambda>l. fst l \<noteq> g) (listeners s)\<rparr>))"

definition on :: "string \<Rightarrow> nat \<Rightarrow> JsonRpc \<Rightarrow> JsonRpc" where
  "on m h s =
     (let hs = (case handlers s m of None \<Rightarrow> [] | Some hs \<Rightarrow> hs)
      in s\<lparr>handlers := (handlers s)(m \<mapsto> (if h \<in> set hs then hs else hs @ [h]))\<rparr>)"

text \<open>The function \<^verbatim>\<open>on\<close> returns: \<^verbatim>\<open>this._handlers.get(method)?.delete(handler)\<close>.\<close>

definition unsubscribe :: "string \<Rightarrow> nat \<Rightarrow> JsonRpc \<Rightarrow> JsonRpc" where
  "unsubscribe m h s =
     (case handlers s m of
        None \<Rightarrow> s
      | Some hs \<Rightarrow> s\<lparr>handlers := (handlers s)(m \<mapsto> removeAll h hs)\<rparr>)"

text \<open>
  \<^verbatim>\<open>_emit\<close>. The name looked up is the payload's \<^verbatim>\<open>method\<close> value; the keys of
  \<^verbatim>\<open>_handlers\<close> are strings. Each subscriber is called inside its own try/catch.
\<close>

definition emit :: "json \<Rightarrow> jsval \<Rightarrow> JsonRpc \<Rightarrow> JsonRpc" where
  "emit m params s =
     (case (case m of JStr name \<Rightarrow> handlers s name | _ \<Rightarrow> None) of
        None \<Rightarrow> s
      | Some hs \<Rightarrow> if hs = [] then s else s\<lparr>calls := calls s @ map (\<lambda>h. (h, params)) hs\<rparr>)"

text \<open>\<^verbatim>\<open>this._pending.get(msg.id)\<close>: the keys are the ids, numbers.\<close>

definition pending_get :: "JsonRpc \<Rightarrow> json \<Rightarrow> entry option" where
  "pending_get s i = (case i of JNum n \<Rightarrow> if 0 \<le> n then pending s (nat n) else None | _ \<Rightarrow> None)"

definition pending_delete :: "json \<Rightarrow> JsonRpc \<Rightarrow> JsonRpc" where
  "pending_delete i s =
     (case i of
        JNum n \<Rightarrow> if 0 \<le> n then s\<lparr>pending := (pending s)(nat n := None)\<rparr> else s
      | _ \<Rightarrow> s)"

text \<open>What a matched response settles the future with (lines 89 to 96).\<close>

definition response_settlement :: "(string \<times> json) list \<Rightarrow> settlement" where
  "response_settlement msg =
     (case map_of msg ''error'' of
        Some err \<Rightarrow>
          if truthy (Some err)
          then Rejected (RpcError
                           (Error_message (js_or (get_prop err ''message'') (Some (JStr ''RPC Error''))))
                                  (get_prop err ''code'') (get_prop err ''data''))
          else Resolved (map_of msg ''result'')
      | None \<Rightarrow> Resolved (map_of msg ''result''))"

text \<open>The body of \<^verbatim>\<open>_handleMessage\<close> for a parsed object (lines 83 to 104).\<close>

definition handleObject :: "(string \<times> json) list \<Rightarrow> JsonRpc \<Rightarrow> JsonRpc" where
  "handleObject msg s =
     (case map_of msg ''id'' of
        Some i \<Rightarrow>
          (case pending_get s i of
             None \<Rightarrow> s
           | Some e \<Rightarrow>
               let s1 = clearTimeout (timer e) s;
                   s2 = pending_delete i s1
               in settle (resolve e) (response_settlement msg) s2)
      | None \<Rightarrow>
          (case map_of msg ''method'' of
             Some m \<Rightarrow> if truthy (Some m) then emit m (map_of msg ''params'') s else s
           | None \<Rightarrow> s))"

text \<open>
  \<^verbatim>\<open>_handleMessage\<close> after \<^verbatim>\<open>JSON.parse\<close>. The result is what the call throws, if
  anything, and the state it leaves. A batch handles its elements in order (each
  is serialised and parsed again, which gives the element back); an element that
  throws ends the loop. \<^verbatim>\<open>hasOwnProperty.call(null, 'id')\<close> throws a TypeError; a
  boolean, a number and a string own no \<^verbatim>\<open>id\<close> and have no \<^verbatim>\<open>method\<close>.
\<close>

fun handleParsed :: "json \<Rightarrow> JsonRpc \<Rightarrow> js_error option \<times> JsonRpc"
  and handleBatch :: "json list \<Rightarrow> JsonRpc \<Rightarrow> js_error option \<times> JsonRpc" where
  "handleParsed (JArr ms) s = handleBatch ms s"
| "handleParsed JNull s = (Some TypeError, s)"
| "handleParsed (JObj msg) s = (None, handleObject msg s)"
| "handleParsed (JBool b) s = (None, s)"
| "handleParsed (JNum n) s = (None, s)"
| "handleParsed (JStr x) s = (None, s)"
| "handleBatch [] s = (None, s)"
| "handleBatch (m # ms) s =
     (case handleParsed m s of
        (Some e, s') \<Rightarrow> (Some e, s')
      | (None, s') \<Rightarrow> handleBatch ms s')"

text \<open>A raw frame: \<^verbatim>\<open>JSON.parse\<close> throws (with a message) or gives a value.\<close>

datatype frame = Unparsable string | Json json

fun handleMessage :: "frame \<Rightarrow> JsonRpc \<Rightarrow> js_error option \<times> JsonRpc" where
  "handleMessage (Unparsable e) s = (None, s\<lparr>logged := logged s @ [LogParseError e]\<rparr>)"
| "handleMessage (Json msg) s = handleParsed msg s"

section \<open>Runs of the engine\<close>

text \<open>
  The scheduler runs one event to completion before the next. What a call throws or
  returns goes to its caller; the run keeps the state.
\<close>

datatype event =
    Request string jsval "nat option"
  | Notify string jsval
  | On string nat
  | Unsubscribe string nat
  | Message frame
  | TimerFires nat
  | Abort nat
  | Connect
  | Disconnect
  | SocketEvent readyState
  | Keepalive

fun step :: "event \<Rightarrow> JsonRpc \<Rightarrow> JsonRpc" where
  "step (Request m params signal) s = snd (request m params signal s)"
| "step (Notify m params) s = snd (notify m params s)"
| "step (On m h) s = on m h s"
| "step (Unsubscribe m h) s = unsubscribe m h s"
| "step (Message f) s = snd (handleMessage f s)"
| "step (TimerFires h) s = timer_fires h s"
| "step (Abort g) s = abort g s"
| "step Connect s = s\<lparr>transport := connect (transport s)\<rparr>"
| "step Disconnect s = s\<lparr>transport := disconnect (transport s)\<rparr>"
| "step (SocketEvent r) s = s\<lparr>transport := socket_event r (transport s)\<rparr>"
| "step Keepalive s = s\<lparr>transport := keepalive (transport s)\<rparr>"

definition run :: "event list \<Rightarrow> JsonRpc \<Rightarrow> JsonRpc" where
  "run es s = fold step es s"

text \<open>The states of a session: the engine built on a new transport, after any run.\<close>

inductive reachable :: "JsonRpc \<Rightarrow> bool" where
  init: "reachable (new_JsonRpc new_WebSocketTransport opts)"
| step: "reachable s \<Longrightarrow> reachable (step e s)"

section \<open>The session client (src/editorlsp/lspClient.js)\<close>

text \<open>
  The closure of \<^verbatim>\<open>createLspClient\<close>: the engine on a transport of its own, and the
  variables \<^verbatim>\<open>serverSyncKind\<close>, \<^verbatim>\<open>serverCapabilities\<close> and \<^verbatim>\<open>connected\<close>. The three
  subscribers of lines 50 to 58 are named 0, 1 and 2.
\<close>

record LspClient =
  rpc :: JsonRpc
  serverSyncKind :: json
  serverCapabilities :: json
  connected :: bool

definition createLspClient :: LspClient where
  "createLspClient =
     \<lparr>rpc = on ''client/registerCapability'' 2
             (on ''textDocument/publishDiagnostics'' 1
               (on ''window/showMessage'' 0 (new_JsonRpc new_WebSocketTransport None))),
      serverSyncKind = JNum 1,
      serverCapabilities = JObj [],
      connected = False\<rparr>"

text \<open>
  An \<^verbatim>\<open>async\<close> function runs up to its \<^verbatim>\<open>await\<close>: it has then completed (its promise is
  settled) or it waits for a promise of the engine. The rest of its body runs when that
  promise settles, on the state of that moment.
\<close>

datatype async = Completed settlement | Awaiting nat

definition initialize :: "jsval \<Rightarrow> LspClient \<Rightarrow> async \<times> LspClient" where
  "initialize params c =
     (case request ''initialize'' params None (rpc c) of
        (Inl e, r) \<Rightarrow> (Completed (Rejected e), c\<lparr>rpc := r\<rparr>)
      | (Inr p, r) \<Rightarrow> (Awaiting p, c\<lparr>rpc := r\<rparr>))"

text \<open>
  Lines 75 to 80, once the request has settled. \<^verbatim>\<open>res.capabilities\<close> throws on a result
  that is undefined or null, and \<^verbatim>\<open>sync.change\<close> on a \<^verbatim>\<open>textDocumentSync\<close> that is null
  (whose \<^verbatim>\<open>typeof\<close> is \<^verbatim>\<open>'object'\<close>); \<^verbatim>\<open>!= null\<close> excludes null and undefined.
  \<open>capabilities_of res\<close> is \<^verbatim>\<open>res.capabilities || {}\<close>.
\<close>

definition capabilities_of :: "json \<Rightarrow> json" where
  "capabilities_of res =
     (case get_prop res ''capabilities'' of
        Some caps \<Rightarrow> if truthy (Some caps) then caps else JObj []
      | None \<Rightarrow> JObj [])"

definition initialize_resumed :: "settlement \<Rightarrow> LspClient \<Rightarrow> settlement \<times> LspClient" where
  "initialize_resumed out c =
     (case out of
        Rejected e \<Rightarrow> (Rejected e, c)
      | Resolved res \<Rightarrow>
          (case res of
             None \<Rightarrow> (Rejected TypeError, c)
           | Some r \<Rightarrow>
               if r = JNull then (Rejected TypeError, c)
               else
                 let c1 = c\<lparr>serverCapabilities := capabilities_of r\<rparr>;
                     sync = get_prop (serverCapabilities c1) ''textDocumentSync''
                 in if typeof sync = T_number
                    then (case sync of
                            Some k \<Rightarrow> (Resolved res, c1\<lparr>serverSyncKind := k\<rparr>)
                          | None \<Rightarrow> (Resolved res, c1))
                    else if typeof sync = T_object
                    then (case sync of
                            None \<Rightarrow> (Resolved res, c1)
                          | Some obj \<Rightarrow>
                              if obj = JNull then (Rejected TypeError, c1)
                              else (case get_prop obj ''change'' of
                                      None \<Rightarrow> (Resolved res, c1)
                                    | Some change \<Rightarrow>
                                        if change = JNull then (Resolved res, c1)
                                        else (Resolved res, c1\<lparr>serverSyncKind := change\<rparr>)))
                    else (Resolved res, c1)))"

text \<open>
  \<^verbatim>\<open>shutdown\<close> (line 83). The \<^verbatim>\<open>finally\<close> block runs \<^verbatim>\<open>rpc.notify('exit')\<close> with the
  outcome \<open>out\<close> of the \<^verbatim>\<open>try\<close> block at hand: what \<^verbatim>\<open>notify\<close> throws replaces it. It
  runs at once when \<^verbatim>\<open>request\<close> throws, and otherwise when the request's promise settles.
\<close>

definition shutdown_finally :: "settlement \<Rightarrow> LspClient \<Rightarrow> settlement \<times> LspClient" where
  "shutdown_finally out c =
     (case notify ''exit'' None (rpc c) of
        (Some e, r) \<Rightarrow> (Rejected e, c\<lparr>rpc := r\<rparr>)
      | (None, r) \<Rightarrow> (out, c\<lparr>rpc := r\<rparr>))"

definition shutdown :: "LspClient \<Rightarrow> async \<times> LspClient" where
  "shutdown c =
     (case request ''shutdown'' None None (rpc c) of
        (Inl e, r) \<Rightarrow>
          (case shutdown_finally (Rejected e) (c\<lparr>rpc := r\<rparr>) of (out, c') \<Rightarrow> (Completed out, c'))
      | (Inr p, r) \<Rightarrow> (Awaiting p, c\<lparr>rpc := r\<rparr>))"

definition shutdown_resumed :: "settlement \<Rightarrow> LspClient \<Rightarrow> settlement \<times> LspClient" where
  "shutdown_resumed out c = shutdown_finally out c"

text \<open>The engine's events between the calls of the client.\<close>

definition engine :: "event list \<Rightarrow> LspClient \<Rightarrow> LspClient" where
  "engine es c = c\<lparr>rpc := run es (rpc c)\<rparr>"

section \<open>Notions of the statements\<close>

text \<open>
  The bookkeeping of a session. A pending entry is filed under the id whose promise and
  timer it holds, and that promise is unsettled; an armed timer belongs to a pending
  entry; an unsettled promise has its entry and its timer; every promise, listener and
  request frame carries an id that has been taken.
\<close>

definition invariant :: "JsonRpc \<Rightarrow> bool" where
  "invariant s =
     (0 < next_id s \<and>
      (\<forall>k e. pending s k = Some e \<longrightarrow>
          resolve e = k \<and> timer e = k \<and> promises s k = Some Unsettled) \<and>
      (\<forall>h d c. timers s h = Some (d, c) \<longrightarrow>
          t_id c = h \<and> t_reject c = h \<and>
          (\<exists>e. pending s h = Some e \<and> e_method e = t_method c)) \<and>
      (\<forall>k. promises s k = Some Unsettled \<longrightarrow> pending s k \<noteq> None \<and> timers s k \<noteq> None) \<and>
      (\<forall>k. promises s k \<noteq> None \<longrightarrow> 0 < k \<and> k < next_id s) \<and>
      (\<forall>l \<in> set (listeners s). a_timer (snd l) = a_id (snd l) \<and> a_reject (snd l) = a_id (snd l)
          \<and> a_id (snd l) < next_id s) \<and>
      (\<forall>f \<in> set (wire (transport s)). \<forall>n. get_prop f ''id'' = Some (JNum n) \<longrightarrow> 0 < n \<and> n < int (next_id s)))"

text \<open>The ids that the calls of \<^verbatim>\<open>request\<close> in a run take (line 22), in order.\<close>

fun is_request :: "event \<Rightarrow> bool" where
  "is_request (Request m p g) = True"
| "is_request e = False"

fun allocated :: "event list \<Rightarrow> JsonRpc \<Rightarrow> nat list" where
  "allocated [] s = []"
| "allocated (e # es) s =
     (if is_request e then [fst (take_id s)] else []) @ allocated es (step e s)"

text \<open>
  The id \<open>k\<close> has been taken and no frame handed to the socket carries it as its
  \<^verbatim>\<open>id\<close>.
\<close>

definition id_unused :: "nat \<Rightarrow> JsonRpc \<Rightarrow> bool" where
  "id_unused k s =
     (k < next_id s \<and> (\<forall>f \<in> set (wire (transport s)). get_prop f ''id'' \<noteq> Some (JNum (int k))))"

text \<open>
  The frame \<open>v\<close> holds a payload whose \<^verbatim>\<open>id\<close> is \<open>h\<close>, as a message of its own or
  as an element of a batch.
\<close>

fun bears :: "nat \<Rightarrow> json \<Rightarrow> bool"
  and bears_any :: "nat \<Rightarrow> json list \<Rightarrow> bool" where
  "bears h (JObj msg) = (map_of msg ''id'' = Some (JNum (int h)))"
| "bears h (JArr ms) = bears_any h ms"
| "bears h JNull = False"
| "bears h (JBool b) = False"
| "bears h (JNum n) = False"
| "bears h (JStr x) = False"
| "bears_any h [] = False"
| "bears_any h (m # ms) = (bears h m \<or> bears_any h ms)"

text \<open>What the engine keeps for the request \<open>h\<close>: its entry, its timer and its promise.\<close>

definition own :: "nat \<Rightarrow> JsonRpc \<Rightarrow> entry option \<times> (nat \<times> timeout_closure) option \<times> promise option" where
  "own h s = (pending s h, timers s h, promises s h)"

text \<open>
  An event that is not the business of the request \<open>h\<close>: not a frame that bears its id,
  not its timer, not the abort of a signal on which it listens.
\<close>

fun silent :: "nat \<Rightarrow> JsonRpc \<Rightarrow> event \<Rightarrow> bool" where
  "silent h s (Message (Json v)) = (\<not> bears h v)"
| "silent h s (TimerFires k) = (k \<noteq> h)"
| "silent h s (Abort g) = list_all (\<lambda>l. fst l \<noteq> g \<or> a_id (snd l) \<noteq> h) (listeners s)"
| "silent h s e = True"

fun silent_run :: "nat \<Rightarrow> event list \<Rightarrow> JsonRpc \<Rightarrow> bool" where
  "silent_run h [] s = True"
| "silent_run h (e # es) s = (silent h s e \<and> silent_run h es (step e s))"

text \<open>
  Single object payloads arriving one after another. The engine takes each that owns an
  id for a response, whether or not it also carries a method.
\<close>

definition payloads :: "(string \<times> json) list list \<Rightarrow> event list" where
  "payloads ms = map (\<lambda>m. Message (Json (JObj m))) ms"

text \<open>Every armed timer carries the delay \<open>T\<close>, the session's \<^verbatim>\<open>timeoutMs\<close>.\<close>

definition delays :: "nat \<Rightarrow> JsonRpc \<Rightarrow> bool" where
  "delays T s = (timeoutMs s = T \<and> (\<forall>h d c. timers s h = Some (d, c) \<longrightarrow> d = T))"

text \<open>Sessions used as examples: the socket is open, and one or three requests are in flight.\<close>

definition one_request :: JsonRpc where
  "one_request =
     run [Connect, SocketEvent OPEN, Request ''textDocument/hover'' None None]
       (new_JsonRpc new_WebSocketTransport None)"

definition three_requests :: JsonRpc where
  "three_requests =
     run [Connect, SocketEvent OPEN,
          Request ''textDocument/hover'' None None,
          Request ''textDocument/completion'' None (Some 0),
          Request ''textDocument/definition'' None None]
       (new_JsonRpc new_WebSocketTransport None)"




text \<open>A frame whose handling does not throw: no null stands where a message is expected.\<close>

fun clean :: "json \<Rightarrow> bool"
  and clean_all :: "json list \<Rightarrow> bool" where
  "clean (JArr ms) = clean_all ms"
| "clean JNull = False"
| "clean (JObj msg) = True"
| "clean (JBool b) = True"
| "clean (JNum n) = True"
| "clean (JStr x) = True"
| "clean_all [] = True"
| "clean_all (m # ms) = (clean m \<and> clean_all ms)"

text \<open>The \<^verbatim>\<open>exit\<close> notification, and whether the client's socket is open.\<close>

definition exit_frame :: json where
  "exit_frame = JObj [(''jsonrpc'', JStr ''2.0''), (''method'', JStr ''exit'')]"

definition is_open :: "LspClient \<Rightarrow> bool" where
  "is_open c = (ws (transport (rpc c)) = Some OPEN)"

text \<open>The client after an \<^verbatim>\<open>initialize\<close> whose result carried the capabilities \<open>caps\<close>.\<close>

definition initialized_with :: "json \<Rightarrow> LspClient \<Rightarrow> LspClient" where
  "initialized_with caps c =
     snd (initialize_resumed (Resolved (Some (JObj [(''capabilities'', caps)]))) c)"

section \<open>The bookkeeping holds in every state of a session\<close>

lemma invariant_init: "invariant (new_JsonRpc new_WebSocketTransport opts)"
  by (simp add: invariant_def new_JsonRpc_def new_WebSocketTransport_def)

lemma invariant_request: "invariant s \<Longrightarrow> invariant (snd (request m p g s))"
  unfolding invariant_def request_def take_id_def Let_def send_def stringify_def
  by (auto split: option.splits if_splits simp: less_Suc_eq)

lemma invariant_notify: "invariant s \<Longrightarrow> invariant (snd (notify m p s))"
  unfolding invariant_def notify_def Let_def send_def stringify_def
  by (auto split: option.splits if_splits)

lemma invariant_timer_fires: "invariant s \<Longrightarrow> invariant (timer_fires h s)"
  unfolding invariant_def timer_fires_def Let_def settle_def
  by (auto split: option.splits if_splits promise.splits)

lemma invariant_abort_listener:
  "invariant s \<Longrightarrow> a_timer c = a_id c \<Longrightarrow> a_reject c = a_id c \<Longrightarrow> invariant (abort_listener c s)"
  unfolding invariant_def abort_listener_def notify_def Let_def settle_def send_def stringify_def clearTimeout_def
  by (auto split: option.splits if_splits promise.splits)

lemma invariant_fold_abort_listener:
  "invariant s \<Longrightarrow> \<forall>c \<in> set cs. a_timer c = a_id c \<and> a_reject c = a_id c \<Longrightarrow>
   invariant (fold abort_listener cs s)"
  by (induction cs arbitrary: s) (auto simp: invariant_abort_listener)

lemma invariant_abort: "invariant s \<Longrightarrow> invariant (abort g s)"
proof -
  assume i: "invariant s"
  let ?s = "s\<lparr>aborted := g # aborted s, listeners := filter (\<lambda>l. fst l \<noteq> g) (listeners s)\<rparr>"
  have 1: "invariant ?s" using i unfolding invariant_def by auto
  have 2: "\<forall>c \<in> set (map snd (filter (\<lambda>l. fst l = g) (listeners s))). a_timer c = a_id c \<and> a_reject c = a_id c"
    using i unfolding invariant_def by auto
  show ?thesis
    unfolding abort_def using i invariant_fold_abort_listener[OF 1 2] by simp
qed

lemma invariant_on: "invariant s \<Longrightarrow> invariant (on m h s)"
  unfolding invariant_def on_def Let_def by simp

lemma invariant_unsubscribe: "invariant s \<Longrightarrow> invariant (unsubscribe m h s)"
  unfolding invariant_def unsubscribe_def by (simp split: option.splits)

lemma invariant_emit: "invariant s \<Longrightarrow> invariant (emit m p s)"
  unfolding invariant_def emit_def by (simp split: option.splits json.splits)

lemma invariant_handleObject: "invariant s \<Longrightarrow> invariant (handleObject msg s)"
proof (cases "map_of msg ''id''")
  case None
  assume "invariant s"
  then show ?thesis using None by (simp add: handleObject_def invariant_emit split: option.splits)
next
  case (Some i)
  assume "invariant s"
  then show ?thesis using Some
    unfolding invariant_def handleObject_def pending_get_def pending_delete_def clearTimeout_def
      settle_def Let_def
    by (auto split: option.splits if_splits promise.splits json.splits)
qed

lemma invariant_handleParsed:
  "invariant s \<Longrightarrow> invariant (snd (handleParsed v s))"
  "invariant s \<Longrightarrow> invariant (snd (handleBatch vs s))"
  by (induction v s and vs s rule: handleParsed_handleBatch.induct)
     (auto simp: invariant_handleObject split: prod.splits option.splits)

lemma invariant_handleMessage: "invariant s \<Longrightarrow> invariant (snd (handleMessage f s))"
  by (cases f) (auto simp: invariant_handleParsed, simp add: invariant_def)

lemma invariant_step: "invariant s \<Longrightarrow> invariant (step e s)"
proof (cases e)
  case (Request m p g) then show "invariant s \<Longrightarrow> ?thesis" by (simp add: invariant_request)
next
  case (Notify m p) then show "invariant s \<Longrightarrow> ?thesis" by (simp add: invariant_notify)
next
  case (Message f) then show "invariant s \<Longrightarrow> ?thesis" by (simp add: invariant_handleMessage)
next
  case Connect then show "invariant s \<Longrightarrow> ?thesis" by (simp add: invariant_def connect_def)
next
  case Disconnect then show "invariant s \<Longrightarrow> ?thesis" by (simp add: invariant_def disconnect_def)
next
  case (SocketEvent r) then show "invariant s \<Longrightarrow> ?thesis"
    by (simp add: invariant_def socket_event_def split: option.splits)
next
  case Keepalive then show "invariant s \<Longrightarrow> ?thesis" by (auto simp: invariant_def keepalive_def)
qed (simp_all add: invariant_on invariant_unsubscribe invariant_timer_fires invariant_abort)

lemma reachable_invariant: "reachable s \<Longrightarrow> invariant s"
  by (induction rule: reachable.induct) (simp_all add: invariant_init invariant_step)

lemma invariant_run: "invariant s \<Longrightarrow> invariant (run es s)"
  unfolding run_def by (induction es arbitrary: s) (simp_all add: invariant_step)

lemma reachable_run: "reachable s \<Longrightarrow> reachable (run es s)"
  unfolding run_def by (induction es arbitrary: s) (simp_all add: reachable.step)

section \<open>Request ids\<close>

lemma next_id_abort_listener: "next_id (abort_listener c s) = next_id s"
  unfolding abort_listener_def notify_def Let_def settle_def send_def stringify_def clearTimeout_def
  by (auto split: option.splits if_splits promise.splits)

lemma next_id_fold_abort_listener: "next_id (fold abort_listener cs s) = next_id s"
  by (induction cs arbitrary: s) (simp_all add: next_id_abort_listener)

lemma next_id_handleObject: "next_id (handleObject msg s) = next_id s"
  unfolding handleObject_def pending_get_def pending_delete_def clearTimeout_def settle_def Let_def emit_def
  by (auto split: option.splits if_splits promise.splits json.splits)

lemma next_id_handleParsed:
  "next_id (snd (handleParsed v s)) = next_id s"
  "next_id (snd (handleBatch vs s)) = next_id s"
  by (induction v s and vs s rule: handleParsed_handleBatch.induct)
     (auto simp: next_id_handleObject split: prod.splits option.splits)

lemma next_id_step:
  "next_id (step e s) = (if is_request e then Suc (next_id s) else next_id s)"
proof (cases e)
  case (Request m p g)
  then show ?thesis
    by (simp add: request_def take_id_def Let_def split: sum.splits option.splits)
next
  case (Notify m p)
  then show ?thesis by (simp add: notify_def Let_def split: sum.splits)
next
  case (On m h) then show ?thesis by (simp add: on_def Let_def)
next
  case (Unsubscribe m h) then show ?thesis by (simp add: unsubscribe_def split: option.splits)
next
  case (Message f)
  then show ?thesis by (cases f) (simp_all add: next_id_handleParsed)
next
  case (TimerFires h)
  then show ?thesis
    by (simp add: timer_fires_def settle_def Let_def split: option.splits promise.splits prod.splits)
next
  case (Abort g)
  then show ?thesis by (simp add: abort_def next_id_fold_abort_listener)
qed simp_all

lemma allocated_from:
  "allocated es s = [next_id s ..< next_id s + length (filter is_request es)]"
proof (induction es arbitrary: s)
  case Nil
  then show ?case by simp
next
  case (Cons e es)
  let ?n = "length (filter is_request es)"
  show ?case
  proof (cases "is_request e")
    case True
    have "[next_id s ..< next_id s + Suc ?n] = next_id s # [Suc (next_id s) ..< next_id s + Suc ?n]"
      by (rule upt_conv_Cons) simp
    moreover have "allocated es (step e s) = [Suc (next_id s) ..< Suc (next_id s) + ?n]"
      using Cons.IH[of "step e s"] True by (simp only: next_id_step if_True)
    ultimately show ?thesis using True
      by (simp add: take_id_def del: upt_Suc)
  next
    case False
    then show ?thesis using Cons.IH[of "step e s"] by (simp add: next_id_step)
  qed
qed

text \<open>
  The id a call takes is the one it files the entry under, names the returned promise by
  and writes into the frame.
\<close>

lemma request_uses_taken_id:
  assumes "ws (transport s) = Some OPEN"
  shows "fst (request m p g s) = Inr (fst (take_id s))"
    and "pending (snd (request m p g s)) (fst (take_id s)) \<noteq> None"
    and "get_prop (last (wire (transport (snd (request m p g s))))) ''id''
           = Some (JNum (int (fst (take_id s))))"
  using assms
  by (simp_all add: request_def take_id_def send_def stringify_def Let_def split: option.splits)

text \<open>
  C8. Within one session the calls of \<^verbatim>\<open>request\<close> take the ids 1, 2, 3, ... in the
  order of the calls, whatever else happens in between and whatever the arguments: the
  first id is 1, every id is positive and greater than all ids taken before, none is
  taken twice, and no argument of the call enters it.
\<close>

theorem request_ids_count_up:
  "allocated es (new_JsonRpc t opts) = [1 ..< Suc (length (filter is_request es))]"
  using allocated_from[of es "new_JsonRpc t opts"] by (simp add: new_JsonRpc_def)

theorem request_ids_count_up_witness:
  "allocated [Request ''initialize'' None None, Notify ''initialized'' None, Connect,
              Request ''textDocument/hover'' (Some (JObj [])) (Some 0),
              Request ''shutdown'' None None]
     (new_JsonRpc new_WebSocketTransport None) = [1, 2, 3]"
  using request_ids_count_up[of "[Request ''initialize'' None None, Notify ''initialized'' None,
      Connect, Request ''textDocument/hover'' (Some (JObj [])) (Some 0),
      Request ''shutdown'' None None]" new_WebSocketTransport None]
  by (simp add: upt_rec)

section \<open>A request the transport refuses\<close>

lemma id_unused_abort_listener: "id_unused k s \<Longrightarrow> id_unused k (abort_listener c s)"
  unfolding id_unused_def abort_listener_def notify_def Let_def settle_def send_def stringify_def clearTimeout_def
  by (auto split: option.splits if_splits promise.splits)

lemma id_unused_fold_abort_listener: "id_unused k s \<Longrightarrow> id_unused k (fold abort_listener cs s)"
  by (induction cs arbitrary: s) (simp_all add: id_unused_abort_listener)

lemma transport_handleObject: "transport (handleObject msg s) = transport s"
  unfolding handleObject_def pending_get_def pending_delete_def clearTimeout_def settle_def Let_def emit_def
  by (auto split: option.splits if_splits promise.splits json.splits)

lemma transport_handleParsed:
  "transport (snd (handleParsed v s)) = transport s"
  "transport (snd (handleBatch vs s)) = transport s"
  by (induction v s and vs s rule: handleParsed_handleBatch.induct)
     (auto simp: transport_handleObject split: prod.splits option.splits)

lemma id_unused_step: "id_unused k s \<Longrightarrow> id_unused k (step e s)"
proof (cases e)
  case (Request m p g)
  then show "id_unused k s \<Longrightarrow> ?thesis"
    by (auto simp: id_unused_def request_def take_id_def send_def stringify_def Let_def split: option.splits)
next
  case (Notify m p)
  then show "id_unused k s \<Longrightarrow> ?thesis"
    by (auto simp: id_unused_def notify_def send_def stringify_def Let_def split: option.splits)
next
  case (On m h) then show "id_unused k s \<Longrightarrow> ?thesis" by (simp add: id_unused_def on_def Let_def)
next
  case (Unsubscribe m h)
  then show "id_unused k s \<Longrightarrow> ?thesis" by (simp add: id_unused_def unsubscribe_def split: option.splits)
next
  case (Message f)
  then show "id_unused k s \<Longrightarrow> ?thesis"
    by (cases f) (simp_all add: id_unused_def transport_handleParsed next_id_handleParsed)
next
  case (TimerFires h)
  then show "id_unused k s \<Longrightarrow> ?thesis"
    by (simp add: id_unused_def timer_fires_def settle_def Let_def split: option.splits promise.splits prod.splits)
next
  case (Abort g)
  assume u: "id_unused k s"
  have "id_unused k (s\<lparr>aborted := g # aborted s, listeners := filter (\<lambda>l. fst l \<noteq> g) (listeners s)\<rparr>)"
    using u by (simp add: id_unused_def)
  then show ?thesis using Abort u by (simp add: abort_def id_unused_fold_abort_listener)
next
  case Connect then show "id_unused k s \<Longrightarrow> ?thesis" by (simp add: id_unused_def connect_def)
next
  case Disconnect then show "id_unused k s \<Longrightarrow> ?thesis" by (simp add: id_unused_def disconnect_def)
next
  case (SocketEvent r)
  then show "id_unused k s \<Longrightarrow> ?thesis" by (simp add: id_unused_def socket_event_def split: option.splits)
next
  case Keepalive then show "id_unused k s \<Longrightarrow> ?thesis" by (auto simp: id_unused_def keepalive_def)
qed

lemma id_unused_run: "id_unused k s \<Longrightarrow> id_unused k (run es s)"
  unfolding run_def by (induction es arbitrary: s) (simp_all add: id_unused_step)

lemma request_not_open:
  "ws (transport s) \<noteq> Some OPEN \<Longrightarrow>
   request m p g s = (Inl WebSocketNotOpen, s\<lparr>next_id := Suc (next_id s)\<rparr>)"
  by (simp add: request_def take_id_def send_def Let_def)

text \<open>
  C10. A call of \<^verbatim>\<open>request\<close> while the transport is not open throws the transport's
  error out of the call: no promise is returned, the pending table, the timers and the
  wire are as before, and the counter has moved on. The id the call took is never taken
  again and no frame of the session, sent before or in any later run, carries it.
\<close>

theorem request_throws_when_not_open:
  assumes "reachable s" and "ws (transport s) \<noteq> Some OPEN"
  shows "fst (request m p g s) = Inl WebSocketNotOpen
       \<and> pending (snd (request m p g s)) = pending s
       \<and> timers (snd (request m p g s)) = timers s
       \<and> promises (snd (request m p g s)) = promises s
       \<and> transport (snd (request m p g s)) = transport s
       \<and> fst (take_id s) = next_id s
       \<and> next_id (snd (request m p g s)) = Suc (next_id s)
       \<and> (\<forall>es. next_id s \<notin> set (allocated es (snd (request m p g s)))
              \<and> (\<forall>f \<in> set (wire (transport (run es (snd (request m p g s))))).
                    get_prop f ''id'' \<noteq> Some (JNum (int (next_id s)))))"
proof -
  let ?s = "s\<lparr>next_id := Suc (next_id s)\<rparr>"
  have r: "request m p g s = (Inl WebSocketNotOpen, ?s)"
    using assms(2) by (rule request_not_open)
  have "invariant s" using assms(1) by (rule reachable_invariant)
  then have "id_unused (next_id s) ?s"
    unfolding invariant_def id_unused_def by fastforce
  then have u: "\<And>es. id_unused (next_id s) (run es ?s)" by (rule id_unused_run)
  have a: "\<And>es. next_id s \<notin> set (allocated es ?s)" by (simp add: allocated_from del: upt_Suc)
  show ?thesis using u a by (simp add: r take_id_def id_unused_def)
qed

theorem request_throws_when_not_open_witness:
  "reachable (new_JsonRpc new_WebSocketTransport None)
   \<and> ws (transport (new_JsonRpc new_WebSocketTransport None)) \<noteq> Some OPEN
   \<and> fst (request ''initialize'' None None (new_JsonRpc new_WebSocketTransport None)) = Inl WebSocketNotOpen
   \<and> next_id (snd (request ''initialize'' None None (new_JsonRpc new_WebSocketTransport None))) = 2
   \<and> pending (snd (request ''initialize'' None None (new_JsonRpc new_WebSocketTransport None))) = Map.empty
   \<and> list_all (\<lambda>f. get_prop f ''id'' \<noteq> Some (JNum 1))
        (wire (transport (run [Connect, SocketEvent OPEN, Request ''initialize'' None None]
           (snd (request ''initialize'' None None (new_JsonRpc new_WebSocketTransport None))))))
   \<and> wire (transport (run [Connect, SocketEvent OPEN, Request ''initialize'' None None]
           (snd (request ''initialize'' None None (new_JsonRpc new_WebSocketTransport None)))))
       = [JObj [(''jsonrpc'', JStr ''2.0''), (''id'', JNum 2), (''method'', JStr ''initialize'')]]"
proof -
  have r: "reachable (new_JsonRpc new_WebSocketTransport None)" by (rule reachable.init)
  have c: "ws (transport (new_JsonRpc new_WebSocketTransport None)) \<noteq> Some OPEN"
    by (simp add: new_JsonRpc_def new_WebSocketTransport_def)
  have n: "next_id (new_JsonRpc new_WebSocketTransport None) = 1"
    "pending (new_JsonRpc new_WebSocketTransport None) = Map.empty"
    by (simp_all add: new_JsonRpc_def)
  have w: "wire (transport (run [Connect, SocketEvent OPEN, Request ''initialize'' None None]
           (snd (request ''initialize'' None None (new_JsonRpc new_WebSocketTransport None)))))
       = [JObj [(''jsonrpc'', JStr ''2.0''), (''id'', JNum 2), (''method'', JStr ''initialize'')]]"
    by (simp add: run_def request_def take_id_def send_def stringify_def Let_def new_JsonRpc_def
        new_WebSocketTransport_def connect_def socket_event_def)
  show ?thesis
    using request_throws_when_not_open[OF r c, of "''initialize''" None None] r c n w
    by (simp add: list_all_iff)
qed

section \<open>The example sessions\<close>

lemma request_open:
  "ws (transport s) = Some OPEN \<Longrightarrow>
   snd (request m p g s) =
     s\<lparr>next_id := Suc (next_id s),
       transport := (transport s)\<lparr>wire := wire (transport s) @
          [stringify [(''jsonrpc'', Some (JStr ''2.0'')), (''id'', Some (JNum (int (next_id s)))),
                   (''method'', Some (JStr m)), (''params'', p)]]\<rparr>,
       logged := logged s @ [LogRequest m],
       promises := (promises s)(next_id s \<mapsto> Unsettled),
       timers := (timers s)(next_id s \<mapsto>
          (timeoutMs s, \<lparr>t_id = next_id s, t_method = m, t_reject = next_id s\<rparr>)),
       pending := (pending s)(next_id s \<mapsto> \<lparr>resolve = next_id s, timer = next_id s, e_method = m\<rparr>),
       listeners := listeners s @
          (case g of None \<Rightarrow> [] | Some sig \<Rightarrow> [(sig, \<lparr>a_id = next_id s, a_timer = next_id s, a_reject = next_id s\<rparr>)])\<rparr>"
  by (cases g) (simp_all add: request_def take_id_def send_def Let_def)

lemma request_open_fst:
  "ws (transport s) = Some OPEN \<Longrightarrow> fst (request m p g s) = Inr (next_id s)"
  by (simp add: request_def take_id_def send_def Let_def)

lemma one_request_eval:
  "one_request =
    \<lparr>transport = \<lparr>ws = Some OPEN, wire = [JObj [(''jsonrpc'', JStr ''2.0''), (''id'', JNum 1),
         (''method'', JStr ''textDocument/hover'')]]\<rparr>,
     timeoutMs = 10000, next_id = 2,
     pending = [1 \<mapsto> \<lparr>resolve = 1, timer = 1, e_method = ''textDocument/hover''\<rparr>],
     handlers = Map.empty,
     timers = [1 \<mapsto> (10000, \<lparr>t_id = 1, t_method = ''textDocument/hover'', t_reject = 1\<rparr>)],
     promises = [1 \<mapsto> Unsettled], listeners = [], aborted = [],
     logged = [LogRequest ''textDocument/hover''], calls = []\<rparr>"
  by (simp add: one_request_def run_def request_def take_id_def send_def stringify_def Let_def new_JsonRpc_def
        new_WebSocketTransport_def connect_def socket_event_def)


lemma three_requests_pending:
  "pending three_requests 3 = Some \<lparr>resolve = 3, timer = 3, e_method = ''textDocument/definition''\<rparr>"
  by (simp add: three_requests_def run_def request_open new_JsonRpc_def new_WebSocketTransport_def
      connect_def socket_event_def numeral_3_eq_3)

lemma reachable_three_requests: "reachable three_requests"
  unfolding three_requests_def by (rule reachable_run) (rule reachable.init)

section \<open>A response and the entry it matches\<close>

lemma handleObject_matched:
  assumes "invariant s" and "pending s i = Some e" and "map_of msg ''id'' = Some (JNum (int i))"
  shows "handleObject msg s =
           s\<lparr>timers := (timers s)(i := None), pending := (pending s)(i := None),
             promises := (promises s)(i \<mapsto> Settled (response_settlement msg))\<rparr>"
proof -
  have "resolve e = i" "timer e = i" "promises s i = Some Unsettled"
    using assms(1,2) unfolding invariant_def by auto
  then show ?thesis
    using assms(2,3)
    by (simp add: handleObject_def pending_get_def pending_delete_def clearTimeout_def settle_def Let_def)
qed

lemma handleObject_unmatched:
  assumes "map_of msg ''id'' = Some j" and "pending_get s j = None"
  shows "handleObject msg s = s"
  using assms by (simp add: handleObject_def)




section \<open>Requests in flight do not touch one another\<close>

lemma own_handleObject:
  assumes "invariant s" and "map_of msg ''id'' \<noteq> Some (JNum (int h))"
  shows "own h (handleObject msg s) = own h s"
proof (cases "map_of msg ''id''")
  case None
  then show ?thesis
    by (simp add: handleObject_def emit_def own_def split: option.splits json.splits)
next
  case (Some j)
  show ?thesis
  proof (cases "pending_get s j")
    case None
    then show ?thesis using Some by (simp add: handleObject_unmatched)
  next
    case (Some e)
    then obtain k where k: "j = JNum (int k)" "pending s k = Some e"
      by (auto simp: pending_get_def split: json.splits if_splits) (metis int_nat_eq)
    have "k \<noteq> h" using assms(2) \<open>map_of msg ''id'' = Some j\<close> k(1) by auto
    then show ?thesis
      using handleObject_matched[OF assms(1) k(2), of msg] \<open>map_of msg ''id'' = Some j\<close> k(1)
      by (simp add: own_def)
  qed
qed

lemma own_handleParsed:
  "invariant s \<Longrightarrow> \<not> bears h v \<Longrightarrow> own h (snd (handleParsed v s)) = own h s"
  "invariant s \<Longrightarrow> \<not> bears_any h vs \<Longrightarrow> own h (snd (handleBatch vs s)) = own h s"
proof (induction v s and vs s rule: handleParsed_handleBatch.induct)
  case (3 msg s)
  then show ?case by (simp add: own_handleObject)
next
  case (8 m ms s)
  have i: "invariant (snd (handleParsed m s))" using 8(3) by (rule invariant_handleParsed)
  have a: "own h (snd (handleParsed m s)) = own h s" using 8 by simp
  show ?case
  proof (cases "handleParsed m s")
    case (Pair r s')
    then show ?thesis using 8 i a by (cases r) auto
  qed
qed simp_all

lemma own_abort_listener:
  assumes "a_id c \<noteq> h" and "a_timer c = a_id c" and "a_reject c = a_id c"
  shows "own h (abort_listener c s) = own h s"
  using assms
  by (simp add: own_def abort_listener_def notify_def send_def Let_def clearTimeout_def settle_def
      split: option.splits promise.splits)

lemma own_fold_abort_listener:
  "\<forall>c \<in> set cs. a_id c \<noteq> h \<and> a_timer c = a_id c \<and> a_reject c = a_id c \<Longrightarrow>
   own h (fold abort_listener cs s) = own h s"
  by (induction cs arbitrary: s) (simp_all add: own_abort_listener)

lemma own_silent:
  assumes "invariant s" and "h < next_id s" and "silent h s e"
  shows "own h (step e s) = own h s"
proof (cases e)
  case (Request m p g)
  then show ?thesis using assms(2)
    by (simp add: own_def request_def take_id_def send_def Let_def split: option.splits)
next
  case (Notify m p)
  then show ?thesis by (simp add: own_def notify_def send_def Let_def)
next
  case (On m k) then show ?thesis by (simp add: own_def on_def Let_def)
next
  case (Unsubscribe m k) then show ?thesis by (simp add: own_def unsubscribe_def split: option.splits)
next
  case (Message f)
  then show ?thesis using assms(1,3) by (cases f) (simp_all add: own_handleParsed, simp add: own_def)
next
  case (TimerFires k)
  then have "k \<noteq> h" using assms(3) by simp
  then show ?thesis using TimerFires assms(1)
    unfolding invariant_def
    by (auto simp: own_def timer_fires_def settle_def Let_def split: option.splits promise.splits)
next
  case (Abort g)
  let ?cs = "map snd (filter (\<lambda>l. fst l = g) (listeners s))"
  have "\<forall>c \<in> set ?cs. a_id c \<noteq> h \<and> a_timer c = a_id c \<and> a_reject c = a_id c"
    using assms(1,3) Abort unfolding invariant_def by (auto simp: list_all_iff)
  then have "own h (fold abort_listener ?cs
       (s\<lparr>aborted := g # aborted s, listeners := filter (\<lambda>l. fst l \<noteq> g) (listeners s)\<rparr>))
     = own h (s\<lparr>aborted := g # aborted s, listeners := filter (\<lambda>l. fst l \<noteq> g) (listeners s)\<rparr>)"
    by (rule own_fold_abort_listener)
  then show ?thesis using Abort by (simp add: abort_def own_def)
qed (simp_all add: own_def)

lemma own_silent_run:
  "invariant s \<Longrightarrow> h < next_id s \<Longrightarrow> silent_run h es s \<Longrightarrow> own h (run es s) = own h s"
proof (induction es arbitrary: s)
  case Nil
  then show ?case by (simp add: run_def)
next
  case (Cons e es)
  have "invariant (step e s)" using Cons.prems(1) by (rule invariant_step)
  moreover have "h < next_id (step e s)" using Cons.prems(2) by (simp add: next_id_step)
  moreover have "silent_run h es (step e s)" using Cons.prems(3) by simp
  ultimately have "own h (run es (step e s)) = own h (step e s)" by (rule Cons.IH)
  moreover have "own h (step e s) = own h s"
    using Cons.prems by (simp add: own_silent)
  ultimately show ?case by (simp add: run_def)
qed

lemma settled_settle:
  "promises s h = Some (Settled out) \<Longrightarrow> promises (settle p x s) h = Some (Settled out)"
  by (auto simp: settle_def split: option.splits promise.splits)

lemma settled_abort_listener:
  "promises s h = Some (Settled out) \<Longrightarrow> promises (abort_listener c s) h = Some (Settled out)"
  unfolding abort_listener_def Let_def
  by (rule settled_settle) (simp add: notify_def send_def Let_def clearTimeout_def)

lemma settled_fold_abort_listener:
  "promises s h = Some (Settled out) \<Longrightarrow> promises (fold abort_listener cs s) h = Some (Settled out)"
  by (induction cs arbitrary: s) (simp_all add: settled_abort_listener)

lemma settled_handleObject:
  assumes "promises s h = Some (Settled out)"
  shows "promises (handleObject msg s) h = Some (Settled out)"
proof (cases "map_of msg ''id''")
  case None
  then show ?thesis using assms
    by (simp add: handleObject_def emit_def split: option.splits json.splits)
next
  case (Some j)
  show ?thesis
  proof (cases "pending_get s j")
    case None
    then show ?thesis using Some assms by (simp add: handleObject_def)
  next
    case (Some e)
    have "promises (settle (resolve e) (response_settlement msg)
            (pending_delete j (clearTimeout (timer e) s))) h = Some (Settled out)"
      by (rule settled_settle)
         (simp add: assms pending_delete_def clearTimeout_def split: json.splits)
    then show ?thesis using Some \<open>map_of msg ''id'' = Some j\<close>
      by (simp add: handleObject_def Let_def)
  qed
qed

lemma settled_handleParsed:
  "promises s h = Some (Settled out) \<Longrightarrow> promises (snd (handleParsed v s)) h = Some (Settled out)"
  "promises s h = Some (Settled out) \<Longrightarrow> promises (snd (handleBatch vs s)) h = Some (Settled out)"
  by (induction v s and vs s rule: handleParsed_handleBatch.induct)
     (auto simp: settled_handleObject split: prod.splits option.splits)

lemma settled_step:
  assumes "invariant s" and "promises s h = Some (Settled out)"
  shows "promises (step e s) h = Some (Settled out)"
proof (cases e)
  case (Request m p g)
  have "h < next_id s" using assms unfolding invariant_def by auto
  then show ?thesis using Request assms(2)
    by (simp add: request_def take_id_def send_def Let_def split: option.splits)
next
  case (Notify m p)
  then show ?thesis using assms(2) by (simp add: notify_def send_def Let_def)
next
  case (On m k) then show ?thesis using assms(2) by (simp add: on_def Let_def)
next
  case (Unsubscribe m k)
  then show ?thesis using assms(2) by (simp add: unsubscribe_def split: option.splits)
next
  case (Message f)
  then show ?thesis using assms(2) by (cases f) (simp_all add: settled_handleParsed)
next
  case (TimerFires k)
  show ?thesis
  proof (cases "timers s k")
    case None
    then show ?thesis using TimerFires assms(2) by (simp add: timer_fires_def)
  next
    case (Some dc)
    obtain d c where "dc = (d, c)" by (cases dc)
    moreover have "promises (settle (t_reject c) (Rejected (RpcTimeout (t_method c)))
        (s\<lparr>timers := (timers s)(k := None), pending := (pending s)(t_id c := None)\<rparr>)) h
      = Some (Settled out)"
      by (rule settled_settle) (simp add: assms(2))
    ultimately show ?thesis using TimerFires Some by (simp add: timer_fires_def Let_def)
  qed
next
  case (Abort g)
  then show ?thesis using assms(2) by (simp add: abort_def settled_fold_abort_listener)
qed (simp_all add: assms(2))

lemma settled_run:
  "invariant s \<Longrightarrow> promises s h = Some (Settled out) \<Longrightarrow> promises (run es s) h = Some (Settled out)"
proof (induction es arbitrary: s)
  case Nil
  then show ?case by (simp add: run_def)
next
  case (Cons e es)
  have "promises (run es (step e s)) h = Some (Settled out)"
    using Cons.prems by (intro Cons.IH invariant_step settled_step)
  then show ?case by (simp add: run_def)
qed

lemma first_response_decides:
  "invariant s \<Longrightarrow> pending s h = Some e \<Longrightarrow>
   promises (run (payloads ms) s) h =
     Some (case find (\<lambda>m. map_of m ''id'' = Some (JNum (int h))) ms of
             None \<Rightarrow> Unsettled
           | Some m \<Rightarrow> Settled (response_settlement m))"
proof (induction ms arbitrary: s e)
  case Nil
  then show ?case unfolding invariant_def by (auto simp: run_def payloads_def)
next
  case (Cons m ms)
  let ?s = "step (Message (Json (JObj m))) s"
  have i: "invariant ?s" using Cons.prems(1) by (rule invariant_step)
  have r: "run (payloads (m # ms)) s = run (payloads ms) ?s"
    by (simp add: run_def payloads_def)
  show ?case
  proof (cases "map_of m ''id'' = Some (JNum (int h))")
    case True
    have "promises ?s h = Some (Settled (response_settlement m))"
      using handleObject_matched[OF Cons.prems True] by simp
    then have "promises (run (payloads ms) ?s) h = Some (Settled (response_settlement m))"
      using i by (intro settled_run)
    then show ?thesis using True r by simp
  next
    case False
    have "own h ?s = own h s" using own_handleObject[OF Cons.prems(1) False] by simp
    then have "pending ?s h = Some e" using Cons.prems(2) by (simp add: own_def)
    then show ?thesis using Cons.IH[OF i] False r by simp
  qed
qed

lemma timer_fires_armed:
  assumes "invariant s" and "timers s h = Some (d, c)"
  shows "timer_fires h s =
           s\<lparr>timers := (timers s)(h := None), pending := (pending s)(h := None),
             promises := (promises s)(h \<mapsto> Settled (Rejected (RpcTimeout (t_method c))))\<rparr>"
proof -
  have "t_id c = h" "t_reject c = h" "promises s h = Some Unsettled"
    using assms unfolding invariant_def by (auto, blast)
  then show ?thesis using assms(2) by (simp add: timer_fires_def settle_def Let_def)
qed

text \<open>
  What the engine does keep. Take any state of a session and any request \<open>h\<close> in flight
  there; its promise is unsettled. Let object payloads arrive in any order and number:
  the promise of \<open>h\<close> ends settled by the first payload that owns the id \<open>h\<close>, and
  unsettled if none does; payloads with other ids, or a second one with the id \<open>h\<close>,
  make no difference. Once the promise is settled no later event of any kind changes it.
  No event that is not the business of \<open>h\<close> touches its entry, timer or promise. And
  while nothing settles it the timer stays armed.
\<close>

lemma in_flight_settled_by_own_id:
  assumes "reachable s" and "pending s h = Some e"
  shows "promises (run (payloads ms) s) h =
           Some (case find (\<lambda>m. map_of m ''id'' = Some (JNum (int h))) ms of
                   None \<Rightarrow> Unsettled
                 | Some m \<Rightarrow> Settled (response_settlement m))
       \<and> (\<forall>es out. promises (run (payloads ms) s) h = Some (Settled out) \<longrightarrow>
             promises (run es (run (payloads ms) s)) h = Some (Settled out))
       \<and> (\<forall>ev. silent h s ev \<longrightarrow> own h (step ev s) = own h s)
       \<and> promises s h = Some Unsettled
       \<and> promises (step (TimerFires h) s) h = Some (Settled (Rejected (RpcTimeout (e_method e))))"
proof -
  have i: "invariant s" using assms(1) by (rule reachable_invariant)
  have u: "promises s h = Some Unsettled" "h < next_id s"
    using i assms(2) unfolding invariant_def by auto
  obtain d c where t: "timers s h = Some (d, c)"
    using i u(1) unfolding invariant_def by fastforce
  have m: "e_method e = t_method c"
    using i t assms(2) unfolding invariant_def by fastforce
  have "invariant (run (payloads ms) s)" using i by (rule invariant_run)
  then have st: "\<And>es out. promises (run (payloads ms) s) h = Some (Settled out) \<Longrightarrow>
      promises (run es (run (payloads ms) s)) h = Some (Settled out)"
    by (rule settled_run)
  show ?thesis
    using first_response_decides[OF i assms(2), of ms] st u own_silent[OF i u(2)]
      timer_fires_armed[OF i t] m
    by simp
qed

lemma in_flight_settled_by_own_id_example:
  "reachable three_requests
   \<and> pending three_requests 3 = Some \<lparr>resolve = 3, timer = 3, e_method = ''textDocument/definition''\<rparr>
   \<and> promises (run (payloads
         [[(''jsonrpc'', JStr ''2.0''), (''id'', JNum 2), (''result'', JArr [])],
          [(''jsonrpc'', JStr ''2.0''), (''id'', JNum 3), (''result'', JStr ''third'')],
          [(''jsonrpc'', JStr ''2.0''), (''id'', JNum 1), (''result'', JStr ''first'')],
          [(''jsonrpc'', JStr ''2.0''), (''id'', JNum 3), (''result'', JStr ''again'')]])
        three_requests) 3
     = Some (Settled (Resolved (Some (JStr ''third''))))"
proof -
  have p: "pending three_requests 3 = Some \<lparr>resolve = 3, timer = 3, e_method = ''textDocument/definition''\<rparr>"
    by (rule three_requests_pending)
  show ?thesis
    using in_flight_settled_by_own_id[OF reachable_three_requests p, of
        "[[(''jsonrpc'', JStr ''2.0''), (''id'', JNum 2), (''result'', JArr [])],
          [(''jsonrpc'', JStr ''2.0''), (''id'', JNum 3), (''result'', JStr ''third'')],
          [(''jsonrpc'', JStr ''2.0''), (''id'', JNum 1), (''result'', JStr ''first'')],
          [(''jsonrpc'', JStr ''2.0''), (''id'', JNum 3), (''result'', JStr ''again'')]]"]
      reachable_three_requests p
    by (simp add: response_settlement_def)
qed

section \<open>Timeouts\<close>

lemma delays_shrink:
  assumes "delays T s" and "timeoutMs s' = timeoutMs s"
    and "\<And>h. timers s' h = None \<or> timers s' h = timers s h"
  shows "delays T s'"
  unfolding delays_def
proof (intro conjI allI impI)
  show "timeoutMs s' = T" using assms(1,2) by (simp add: delays_def)
next
  fix h d c
  assume "timers s' h = Some (d, c)"
  then have "timers s h = Some (d, c)" using assms(3)[of h] by auto
  then show "d = T" using assms(1) unfolding delays_def by blast
qed

lemma timers_settle: "timers (settle p x s) = timers s"
  by (simp add: settle_def split: option.splits promise.splits)

lemma timeoutMs_settle: "timeoutMs (settle p x s) = timeoutMs s"
  by (simp add: settle_def split: option.splits promise.splits)

lemma delays_abort_listener: "delays T s \<Longrightarrow> delays T (abort_listener c s)"
  by (erule delays_shrink)
     (simp_all add: abort_listener_def Let_def timers_settle timeoutMs_settle clearTimeout_def
        notify_def send_def)

lemma delays_fold_abort_listener: "delays T s \<Longrightarrow> delays T (fold abort_listener cs s)"
  by (induction cs arbitrary: s) (simp_all add: delays_abort_listener)

lemma delays_handleObject: "delays T s \<Longrightarrow> delays T (handleObject msg s)"
  by (erule delays_shrink)
     (simp_all add: handleObject_def Let_def timers_settle timeoutMs_settle clearTimeout_def
        pending_delete_def emit_def split: option.splits json.splits)

lemma delays_handleParsed:
  "delays T s \<Longrightarrow> delays T (snd (handleParsed v s))"
  "delays T s \<Longrightarrow> delays T (snd (handleBatch vs s))"
  by (induction v s and vs s rule: handleParsed_handleBatch.induct)
     (auto simp: delays_handleObject split: prod.splits option.splits)

lemma delays_step: "delays T s \<Longrightarrow> delays T (step e s)"
proof (cases e)
  case (Request m p g)
  then show "delays T s \<Longrightarrow> ?thesis"
    by (cases g) (simp_all add: delays_def request_def take_id_def send_def Let_def)
next
  case (Notify m p)
  then show "delays T s \<Longrightarrow> ?thesis" by (simp add: delays_def notify_def send_def Let_def)
next
  case (On m k) then show "delays T s \<Longrightarrow> ?thesis" by (simp add: delays_def on_def Let_def)
next
  case (Unsubscribe m k)
  then show "delays T s \<Longrightarrow> ?thesis" by (simp add: delays_def unsubscribe_def split: option.splits)
next
  case (Message f)
  then show "delays T s \<Longrightarrow> ?thesis"
    by (cases f) (simp_all add: delays_handleParsed, simp add: delays_def)
next
  case (TimerFires k)
  assume d: "delays T s"
  have "delays T (timer_fires k s)"
    by (rule delays_shrink[OF d])
       (simp_all add: timer_fires_def Let_def timers_settle timeoutMs_settle split: option.splits prod.splits)
  then show ?thesis using TimerFires by simp
next
  case (Abort g)
  assume d: "delays T s"
  then have "delays T (s\<lparr>aborted := g # aborted s, listeners := filter (\<lambda>l. fst l \<noteq> g) (listeners s)\<rparr>)"
    by (simp add: delays_def)
  then show ?thesis using Abort d by (simp add: abort_def delays_fold_abort_listener)
qed (simp_all add: delays_def)

lemma delays_run: "delays T s \<Longrightarrow> delays T (run es s)"
  unfolding run_def by (induction es arbitrary: s) (simp_all add: delays_step)

lemma delays_new:
  "delays (case opts of None \<Rightarrow> 10000 | Some ms \<Rightarrow> ms) (new_JsonRpc t opts)"
  by (simp add: delays_def new_JsonRpc_def)

text \<open>
  What the engine does keep. In any state of a session take a request \<open>h\<close> whose timer
  is still armed: the timer's delay is the session's timeout (10000 when none was
  configured), the request is in flight and its promise unsettled. The timer stays armed
  through every run in which no payload with the id \<open>h\<close> arrives and its signal does not
  abort, whatever the transport does meanwhile. When it fires, the entry is removed and
  the promise is rejected with the timeout error naming the request's method; the
  transport is neither asked nor touched. A payload with the id \<open>h\<close> that arrives
  afterwards, like any payload whose id has no pending entry, is handled without an
  exception and leaves the state as it was.
\<close>

lemma armed_timer_rejects:
  assumes "s = run es (new_JsonRpc new_WebSocketTransport opts)" and "timers s h = Some (d, c)"
  shows "d = (case opts of None \<Rightarrow> 10000 | Some ms \<Rightarrow> ms)
       \<and> (\<exists>e. pending s h = Some e \<and> e_method e = t_method c)
       \<and> promises s h = Some Unsettled
       \<and> (\<forall>quiet. silent_run h quiet s \<longrightarrow> timers (run quiet s) h = Some (d, c))
       \<and> pending (step (TimerFires h) s) h = None
       \<and> timers (step (TimerFires h) s) h = None
       \<and> promises (step (TimerFires h) s) h = Some (Settled (Rejected (RpcTimeout (t_method c))))
       \<and> transport (step (TimerFires h) s) = transport s
       \<and> (\<forall>msg. map_of msg ''id'' = Some (JNum (int h)) \<longrightarrow>
             handleMessage (Json (JObj msg)) (step (TimerFires h) s) = (None, step (TimerFires h) s))
       \<and> (\<forall>msg j. map_of msg ''id'' = Some j \<and> pending_get s j = None \<longrightarrow>
             handleMessage (Json (JObj msg)) s = (None, s))"
proof -
  have r: "reachable s" unfolding assms(1) by (rule reachable_run) (rule reachable.init)
  then have i: "invariant s" by (rule reachable_invariant)
  have "delays (case opts of None \<Rightarrow> 10000 | Some ms \<Rightarrow> ms) s"
    unfolding assms(1) by (rule delays_run) (rule delays_new)
  then have d: "d = (case opts of None \<Rightarrow> 10000 | Some ms \<Rightarrow> ms)"
    using assms(2) unfolding delays_def by blast
  have p: "\<exists>e. pending s h = Some e \<and> e_method e = t_method c" "promises s h = Some Unsettled"
    "h < next_id s"
    using i assms(2) unfolding invariant_def by (blast, fastforce, fastforce)
  have q: "\<And>quiet. silent_run h quiet s \<Longrightarrow> timers (run quiet s) h = Some (d, c)"
    using own_silent_run[OF i p(3)] assms(2) by (simp add: own_def)
  have f: "timer_fires h s =
           s\<lparr>timers := (timers s)(h := None), pending := (pending s)(h := None),
             promises := (promises s)(h \<mapsto> Settled (Rejected (RpcTimeout (t_method c))))\<rparr>"
    using i assms(2) by (rule timer_fires_armed)
  have l: "\<And>msg. map_of msg ''id'' = Some (JNum (int h)) \<Longrightarrow>
      handleObject msg (timer_fires h s) = timer_fires h s"
    by (rule handleObject_unmatched[where j = "JNum (int h)"]) (simp_all add: f pending_get_def)
  show ?thesis using d p(1,2) q l by (simp add: f handleObject_unmatched)
qed

lemma armed_timer_rejects_example:
  "one_request = run [Connect, SocketEvent OPEN, Request ''textDocument/hover'' None None]
                   (new_JsonRpc new_WebSocketTransport None)
   \<and> timers one_request 1 = Some (10000, \<lparr>t_id = 1, t_method = ''textDocument/hover'', t_reject = 1\<rparr>)
   \<and> pending (step (TimerFires 1) one_request) 1 = None
   \<and> promises (step (TimerFires 1) one_request) 1
       = Some (Settled (Rejected (RpcTimeout ''textDocument/hover'')))
   \<and> handleMessage (Json (JObj [(''jsonrpc'', JStr ''2.0''), (''id'', JNum 1), (''result'', JNull)]))
         (step (TimerFires 1) one_request) = (None, step (TimerFires 1) one_request)"
proof -
  have t: "timers one_request 1 = Some (10000, \<lparr>t_id = 1, t_method = ''textDocument/hover'', t_reject = 1\<rparr>)"
    by (simp add: one_request_eval)
  show ?thesis
    using armed_timer_rejects[OF one_request_def t] t one_request_def by simp
qed

section \<open>Cancellation\<close>













lemma three_requests_eval:
  "three_requests =
    \<lparr>transport = \<lparr>ws = Some OPEN, wire =
        [JObj [(''jsonrpc'', JStr ''2.0''), (''id'', JNum 1), (''method'', JStr ''textDocument/hover'')],
         JObj [(''jsonrpc'', JStr ''2.0''), (''id'', JNum 2), (''method'', JStr ''textDocument/completion'')],
         JObj [(''jsonrpc'', JStr ''2.0''), (''id'', JNum 3), (''method'', JStr ''textDocument/definition'')]]\<rparr>,
     timeoutMs = 10000, next_id = 4,
     pending = [1 \<mapsto> \<lparr>resolve = 1, timer = 1, e_method = ''textDocument/hover''\<rparr>,
                2 \<mapsto> \<lparr>resolve = 2, timer = 2, e_method = ''textDocument/completion''\<rparr>,
                3 \<mapsto> \<lparr>resolve = 3, timer = 3, e_method = ''textDocument/definition''\<rparr>],
     handlers = Map.empty,
     timers = [1 \<mapsto> (10000, \<lparr>t_id = 1, t_method = ''textDocument/hover'', t_reject = 1\<rparr>),
               2 \<mapsto> (10000, \<lparr>t_id = 2, t_method = ''textDocument/completion'', t_reject = 2\<rparr>),
               3 \<mapsto> (10000, \<lparr>t_id = 3, t_method = ''textDocument/definition'', t_reject = 3\<rparr>)],
     promises = [1 \<mapsto> Unsettled, 2 \<mapsto> Unsettled, 3 \<mapsto> Unsettled],
     listeners = [(0, \<lparr>a_id = 2, a_timer = 2, a_reject = 2\<rparr>)], aborted = [],
     logged = [LogRequest ''textDocument/hover'', LogRequest ''textDocument/completion'',
               LogRequest ''textDocument/definition''],
     calls = []\<rparr>"
  by (simp add: three_requests_def run_def request_open stringify_def
        new_JsonRpc_def new_WebSocketTransport_def connect_def socket_event_def
        numeral_2_eq_2[symmetric] numeral_3_eq_3[symmetric])

text \<open>
  A signal that has fired does not fire again: a request issued with such a signal keeps
  its listener for good and runs as a request without a signal does.
\<close>

lemma abort_fires_once: "g \<in> set (aborted s) \<Longrightarrow> step (Abort g) s = s"
  by (simp add: abort_def)













section \<open>Payloads with a method\<close>

text \<open>
  A payload with a method that nobody subscribed to leaves the state as it is when it
  has no id, or an id with no pending entry.
\<close>

lemma unsubscribed_method_ignored:
  assumes "map_of msg ''method'' = Some m"
    and "case m of JStr name \<Rightarrow> handlers s name = None \<or> handlers s name = Some [] | _ \<Rightarrow> True"
    and "map_of msg ''id'' = None \<or> (\<exists>j. map_of msg ''id'' = Some j \<and> pending_get s j = None)"
  shows "handleMessage (Json (JObj msg)) s = (None, s)"
  using assms
  by (auto simp: handleObject_def emit_def split: option.splits json.splits)

text \<open>
  C4 fails on the code. The request 1 is in flight and the server sends a request of its
  own, \<^verbatim>\<open>workspace/configuration\<close>, numbered 1 as well; nobody subscribed to the method.
  The payload owns an id, so line 84 takes it for a response before line 101 looks at
  the method: the entry of the client's request is removed and its promise is resolved
  with undefined.
\<close>

theorem server_request_settles_pending:
  "handlers one_request ''workspace/configuration'' = None
   \<and> promises one_request 1 = Some Unsettled
   \<and> pending one_request 1 = Some \<lparr>resolve = 1, timer = 1, e_method = ''textDocument/hover''\<rparr>
   \<and> fst (handleMessage (Json (JObj [(''jsonrpc'', JStr ''2.0''), (''id'', JNum 1),
        (''method'', JStr ''workspace/configuration''), (''params'', JObj [(''items'', JArr [])])]))
        one_request) = None
   \<and> pending (snd (handleMessage (Json (JObj [(''jsonrpc'', JStr ''2.0''), (''id'', JNum 1),
        (''method'', JStr ''workspace/configuration''), (''params'', JObj [(''items'', JArr [])])]))
        one_request)) 1 = None
   \<and> promises (snd (handleMessage (Json (JObj [(''jsonrpc'', JStr ''2.0''), (''id'', JNum 1),
        (''method'', JStr ''workspace/configuration''), (''params'', JObj [(''items'', JArr [])])]))
        one_request)) 1 = Some (Settled (Resolved None))"
  by (simp add: one_request_eval handleObject_def pending_get_def pending_delete_def
      clearTimeout_def settle_def response_settlement_def Let_def)

text \<open>
  C1 fails on the code, by the defect of C4. The requests 1, 2 and 3 are in flight and
  the server sends a request of its own numbered 2. The promise of the client's request 2
  is resolved with undefined, a value that comes from no response, and the response to
  request 2 that arrives next is dropped.
\<close>

theorem future_settled_by_server_request:
  "promises three_requests 2 = Some Unsettled
   \<and> map_of [(''jsonrpc'', JStr ''2.0''), (''id'', JNum 2),
        (''method'', JStr ''workspace/configuration''), (''params'', JObj [(''items'', JArr [])])]
        ''method'' = Some (JStr ''workspace/configuration'')
   \<and> promises (step (Message (Json (JObj [(''jsonrpc'', JStr ''2.0''), (''id'', JNum 2),
        (''method'', JStr ''workspace/configuration''), (''params'', JObj [(''items'', JArr [])])])))
        three_requests) 2 = Some (Settled (Resolved None))
   \<and> step (Message (Json (JObj [(''jsonrpc'', JStr ''2.0''), (''id'', JNum 2),
          (''result'', JStr ''two'')])))
        (step (Message (Json (JObj [(''jsonrpc'', JStr ''2.0''), (''id'', JNum 2),
          (''method'', JStr ''workspace/configuration''), (''params'', JObj [(''items'', JArr [])])])))
          three_requests)
     = step (Message (Json (JObj [(''jsonrpc'', JStr ''2.0''), (''id'', JNum 2),
          (''method'', JStr ''workspace/configuration''), (''params'', JObj [(''items'', JArr [])])])))
          three_requests
   \<and> promises (step (Message (Json (JObj [(''jsonrpc'', JStr ''2.0''), (''id'', JNum 2),
        (''method'', JStr ''workspace/configuration''), (''params'', JObj [(''items'', JArr [])])])))
        three_requests) 1 = Some Unsettled
   \<and> promises (step (Message (Json (JObj [(''jsonrpc'', JStr ''2.0''), (''id'', JNum 2),
        (''method'', JStr ''workspace/configuration''), (''params'', JObj [(''items'', JArr [])])])))
        three_requests) 3 = Some Unsettled"
  by (simp add: three_requests_eval handleObject_def pending_get_def pending_delete_def
      clearTimeout_def settle_def response_settlement_def Let_def)

text \<open>
  C3 fails on the code, by the defect of C4. The request 1 is in flight with its timer
  armed and no response to it ever arrives. The server sends a request of its own
  numbered 1: the timer is cleared and the promise resolved with undefined. When the
  timeout window ends nothing fires, and the promise is not rejected with the timeout
  error.
\<close>

theorem server_request_disarms_timeout:
  "timers one_request 1 = Some (10000, \<lparr>t_id = 1, t_method = ''textDocument/hover'', t_reject = 1\<rparr>)
   \<and> promises one_request 1 = Some Unsettled
   \<and> timers (step (Message (Json (JObj [(''jsonrpc'', JStr ''2.0''), (''id'', JNum 1),
        (''method'', JStr ''window/workDoneProgress/create''), (''params'', JObj [(''token'', JStr ''t'')])])))
        one_request) 1 = None
   \<and> step (TimerFires 1)
        (step (Message (Json (JObj [(''jsonrpc'', JStr ''2.0''), (''id'', JNum 1),
          (''method'', JStr ''window/workDoneProgress/create''), (''params'', JObj [(''token'', JStr ''t'')])])))
          one_request)
     = step (Message (Json (JObj [(''jsonrpc'', JStr ''2.0''), (''id'', JNum 1),
          (''method'', JStr ''window/workDoneProgress/create''), (''params'', JObj [(''token'', JStr ''t'')])])))
          one_request
   \<and> promises (step (TimerFires 1)
        (step (Message (Json (JObj [(''jsonrpc'', JStr ''2.0''), (''id'', JNum 1),
          (''method'', JStr ''window/workDoneProgress/create''), (''params'', JObj [(''token'', JStr ''t'')])])))
          one_request)) 1 = Some (Settled (Resolved None))"
  by (simp add: one_request_eval handleObject_def pending_get_def pending_delete_def
      clearTimeout_def settle_def response_settlement_def timer_fires_def Let_def)

section \<open>Batches\<close>

lemma clean_no_throw:
  "clean v \<Longrightarrow> fst (handleParsed v s) = None"
  "clean_all vs \<Longrightarrow> fst (handleBatch vs s) = None"
  by (induction v s and vs s rule: handleParsed_handleBatch.induct)
     (auto split: prod.splits option.splits)

lemma batch_each:
  "clean_all vs \<Longrightarrow>
   handleBatch vs s = (None, fold (\<lambda>m. step (Message (Json m))) vs s)"
proof (induction vs arbitrary: s)
  case Nil
  then show ?case by simp
next
  case (Cons m ms)
  obtain r s' where h: "handleParsed m s = (r, s')" by (cases "handleParsed m s")
  have "r = None" using clean_no_throw(1)[of m s] Cons.prems h by simp
  then show ?case using Cons h by simp
qed

lemma batch_of_objects:
  "handleBatch (map JObj ms) s = (None, run (payloads ms) s)"
proof -
  have "clean_all (map JObj ms)" by (induction ms) simp_all
  then have "handleBatch (map JObj ms) s = (None, fold (\<lambda>m. step (Message (Json m))) (map JObj ms) s)"
    by (rule batch_each)
  then show ?thesis by (simp add: run_def payloads_def fold_map comp_def)
qed

text \<open>
  A batch of response objects settles each request in flight by the first element that
  bears its id.
\<close>

lemma batch_settles_each:
  assumes "reachable s" and "pending s h = Some e"
  shows "promises (snd (handleMessage (Json (JArr (map JObj ms))) s)) h =
           Some (case find (\<lambda>m. map_of m ''id'' = Some (JNum (int h))) ms of
                   None \<Rightarrow> Unsettled
                 | Some m \<Rightarrow> Settled (response_settlement m))"
  using first_response_decides[OF reachable_invariant[OF assms(1)] assms(2), of ms]
  by (simp add: batch_of_objects)

text \<open>
  C9 fails on the code. The request 1 is in flight. Its response, dispatched alone,
  settles it. In a batch behind a null the response is never dispatched: the null throws
  a TypeError (line 84), the loop of line 79 ends, and the request stays in flight.
\<close>

theorem batch_stops_at_null:
  "pending three_requests 1 \<noteq> None
   \<and> promises (snd (handleMessage (Json (JObj [(''jsonrpc'', JStr ''2.0''), (''id'', JNum 1),
        (''result'', JStr ''one'')])) three_requests)) 1
       = Some (Settled (Resolved (Some (JStr ''one''))))
   \<and> fst (handleMessage (Json (JArr [JNull, JObj [(''jsonrpc'', JStr ''2.0''), (''id'', JNum 1),
        (''result'', JStr ''one'')]])) three_requests) = Some TypeError
   \<and> snd (handleMessage (Json (JArr [JNull, JObj [(''jsonrpc'', JStr ''2.0''), (''id'', JNum 1),
        (''result'', JStr ''one'')]])) three_requests) = three_requests
   \<and> promises three_requests 1 = Some Unsettled"
  by (simp add: three_requests_eval handleObject_def pending_get_def pending_delete_def
      clearTimeout_def settle_def response_settlement_def Let_def)

section \<open>Shutdown\<close>

lemma notify_open:
  "ws (transport s) = Some OPEN \<Longrightarrow>
   notify m p s = (None, s\<lparr>transport := (transport s)\<lparr>wire := wire (transport s) @
       [stringify [(''jsonrpc'', Some (JStr ''2.0'')), (''method'', Some (JStr m)), (''params'', p)]]\<rparr>,
       logged := logged s @ [LogNotify m]\<rparr>)"
  by (simp add: notify_def send_def Let_def)

lemma notify_not_open:
  "ws (transport s) \<noteq> Some OPEN \<Longrightarrow> notify m p s = (Some WebSocketNotOpen, s)"
  by (simp add: notify_def send_def Let_def)

lemma shutdown_open:
  "is_open c \<Longrightarrow>
   shutdown c = (Awaiting (next_id (rpc c)), c\<lparr>rpc := snd (request ''shutdown'' None None (rpc c))\<rparr>)"
  by (simp add: shutdown_def split_beta request_open_fst is_open_def)

text \<open>
  C6 (as amended). \<^verbatim>\<open>shutdown()\<close> calls \<^verbatim>\<open>notify('exit')\<close> as its last step in every case,
  when the \<^verbatim>\<open>shutdown\<close> request has thrown or has settled, resolved or rejected. With
  the transport open at the call the request is sent and awaited; with the transport
  open when the request settles, the \<^verbatim>\<open>exit\<close> notification is sent and \<^verbatim>\<open>shutdown()\<close>
  settles as the request did. With the transport not open at either moment nothing
  is sent there and \<^verbatim>\<open>shutdown()\<close> rejects with the transport's error.
\<close>

theorem shutdown_sends_exit_if_open:
  "(is_open c \<longrightarrow>
      fst (shutdown c) = Awaiting (next_id (rpc c))
      \<and> pending (rpc (snd (shutdown c))) (next_id (rpc c)) \<noteq> None
      \<and> fst (shutdown_resumed out c) = out
      \<and> wire (transport (rpc (snd (shutdown_resumed out c)))) = wire (transport (rpc c)) @ [exit_frame])
   \<and> (\<not> is_open c \<longrightarrow>
      fst (shutdown c) = Completed (Rejected WebSocketNotOpen)
      \<and> wire (transport (rpc (snd (shutdown c)))) = wire (transport (rpc c))
      \<and> fst (shutdown_resumed out c) = Rejected WebSocketNotOpen
      \<and> wire (transport (rpc (snd (shutdown_resumed out c)))) = wire (transport (rpc c)))"
proof (cases "is_open c")
  case True
  then have o: "ws (transport (rpc c)) = Some OPEN" by (simp add: is_open_def)
  have 1: "fst (shutdown c) = Awaiting (next_id (rpc c))"
    "rpc (snd (shutdown c)) = snd (request ''shutdown'' None None (rpc c))"
    using True by (simp_all add: shutdown_open)
  have 2: "pending (snd (request ''shutdown'' None None (rpc c))) (next_id (rpc c)) \<noteq> None"
    using o by (simp add: request_open)
  show ?thesis
    using True 1 2 o
    by (simp add: shutdown_resumed_def shutdown_finally_def notify_open stringify_def exit_frame_def)
next
  case False
  then have o: "ws (transport (rpc c)) \<noteq> Some OPEN" by (simp add: is_open_def)
  show ?thesis
    using False o
    by (simp add: shutdown_def shutdown_resumed_def shutdown_finally_def notify_not_open
        request_def take_id_def send_def Let_def)
qed

theorem shutdown_sends_exit_if_open_witness:
  "is_open (engine [Connect, SocketEvent OPEN] createLspClient)
   \<and> fst (shutdown (engine [Connect, SocketEvent OPEN] createLspClient)) = Awaiting 1
   \<and> fst (shutdown_resumed (Rejected (RpcError ''not ready'' (Some (JNum (- 32002))) None))
        (snd (shutdown (engine [Connect, SocketEvent OPEN] createLspClient))))
       = Rejected (RpcError ''not ready'' (Some (JNum (- 32002))) None)
   \<and> wire (transport (rpc (snd (shutdown_resumed
          (Rejected (RpcError ''not ready'' (Some (JNum (- 32002))) None))
          (snd (shutdown (engine [Connect, SocketEvent OPEN] createLspClient)))))))
       = [JObj [(''jsonrpc'', JStr ''2.0''), (''id'', JNum 1), (''method'', JStr ''shutdown'')],
          exit_frame]
   \<and> \<not> is_open createLspClient
   \<and> fst (shutdown createLspClient) = Completed (Rejected WebSocketNotOpen)"
proof -
  let ?c = "engine [Connect, SocketEvent OPEN] createLspClient"
  let ?e = "Rejected (RpcError ''not ready'' (Some (JNum (- 32002))) None)"
  have o: "is_open ?c"
    by (simp add: is_open_def engine_def run_def createLspClient_def on_def new_JsonRpc_def
        new_WebSocketTransport_def connect_def socket_event_def)
  have n: "next_id (rpc ?c) = 1" "wire (transport (rpc ?c)) = []"
    by (simp_all add: engine_def run_def createLspClient_def on_def new_JsonRpc_def
        new_WebSocketTransport_def connect_def socket_event_def)
  have s: "rpc (snd (shutdown ?c)) = snd (request ''shutdown'' None None (rpc ?c))"
    using o by (simp add: shutdown_open)
  have o': "is_open (snd (shutdown ?c))"
    using o by (simp add: is_open_def s request_open)
  have w: "wire (transport (rpc (snd (shutdown ?c))))
       = [JObj [(''jsonrpc'', JStr ''2.0''), (''id'', JNum 1), (''method'', JStr ''shutdown'')]]"
    using o n by (simp add: is_open_def s request_open stringify_def)
  have c: "\<not> is_open createLspClient"
    by (simp add: is_open_def createLspClient_def on_def new_JsonRpc_def new_WebSocketTransport_def)
  show ?thesis
    using shutdown_sends_exit_if_open[of ?c ?e] shutdown_sends_exit_if_open[of "snd (shutdown ?c)" ?e]
      shutdown_sends_exit_if_open[of createLspClient ?e] o o' n w c
    by simp
qed

text \<open>
  C6 as stated fails. On a client that never connected \<^verbatim>\<open>shutdown()\<close> rejects and nothing
  is on the wire. And when the socket closes while the request is in flight and the
  request times out, \<^verbatim>\<open>shutdown()\<close> rejects and the wire holds the request alone.
\<close>

theorem shutdown_sends_exit_counterexample:
  "fst (shutdown createLspClient) = Completed (Rejected WebSocketNotOpen)
   \<and> wire (transport (rpc (snd (shutdown createLspClient)))) = []
   \<and> fst (shutdown (engine [Connect, SocketEvent OPEN] createLspClient)) = Awaiting 1
   \<and> promises (rpc (engine [SocketEvent CLOSED, TimerFires 1]
        (snd (shutdown (engine [Connect, SocketEvent OPEN] createLspClient))))) 1
       = Some (Settled (Rejected (RpcTimeout ''shutdown'')))
   \<and> fst (shutdown_resumed (Rejected (RpcTimeout ''shutdown''))
        (engine [SocketEvent CLOSED, TimerFires 1]
          (snd (shutdown (engine [Connect, SocketEvent OPEN] createLspClient)))))
       = Rejected WebSocketNotOpen
   \<and> wire (transport (rpc (snd (shutdown_resumed (Rejected (RpcTimeout ''shutdown''))
        (engine [SocketEvent CLOSED, TimerFires 1]
          (snd (shutdown (engine [Connect, SocketEvent OPEN] createLspClient))))))))
       = [JObj [(''jsonrpc'', JStr ''2.0''), (''id'', JNum 1), (''method'', JStr ''shutdown'')]]"
  by (simp add: shutdown_def shutdown_resumed_def shutdown_finally_def engine_def run_def
      createLspClient_def on_def new_JsonRpc_def new_WebSocketTransport_def connect_def socket_event_def
      request_def take_id_def notify_def send_def stringify_def timer_fires_def settle_def Let_def)

section \<open>The text synchronisation kind\<close>

text \<open>
  C7 (as amended). After a successful \<^verbatim>\<open>initialize()\<close> the stored capabilities are the
  result's \<^verbatim>\<open>capabilities\<close> (an empty object when that is falsy), and the sync kind is:
  the number, when \<^verbatim>\<open>textDocumentSync\<close> is a number; the \<^verbatim>\<open>change\<close> field, when it is an
  object with a \<^verbatim>\<open>change\<close> that is not null; and otherwise what it was before the call,
  which on a new client is Full (1).
\<close>

theorem initialize_sync_kind:
  assumes "initialize_resumed (Resolved res) c = (Resolved x, c')"
  shows "x = res
       \<and> (\<exists>r. res = Some r \<and> serverCapabilities c' = capabilities_of r)
       \<and> (\<forall>n. get_prop (serverCapabilities c') ''textDocumentSync'' = Some (JNum n) \<longrightarrow>
             serverSyncKind c' = JNum n)
       \<and> (\<forall>kvs change. get_prop (serverCapabilities c') ''textDocumentSync'' = Some (JObj kvs)
             \<and> map_of kvs ''change'' = Some change \<and> change \<noteq> JNull \<longrightarrow>
             serverSyncKind c' = change)
       \<and> ((\<forall>n. get_prop (serverCapabilities c') ''textDocumentSync'' \<noteq> Some (JNum n))
           \<and> (\<forall>kvs change. get_prop (serverCapabilities c') ''textDocumentSync'' = Some (JObj kvs)
                 \<and> map_of kvs ''change'' = Some change \<longrightarrow> change = JNull) \<longrightarrow>
             serverSyncKind c' = serverSyncKind c)
       \<and> serverSyncKind createLspClient = JNum 1"
proof -
  obtain r where r: "res = Some r" "r \<noteq> JNull"
    using assms by (cases res) (auto simp: initialize_resumed_def split: if_splits)
  have k: "serverSyncKind createLspClient = JNum 1" by (simp add: createLspClient_def)
  show ?thesis
  proof (cases "get_prop (capabilities_of r) ''textDocumentSync''")
    case None
    then show ?thesis using assms r k by (auto simp: initialize_resumed_def Let_def)
  next
    case (Some sync)
    then show ?thesis using assms r k
      by (cases sync)
         (auto simp: initialize_resumed_def Let_def split: option.splits if_splits)
  qed
qed

theorem initialize_sync_kind_witness:
  "initialize_resumed (Resolved (Some (JObj [(''capabilities'', JObj [(''textDocumentSync'', JNum 2)])])))
       createLspClient
     = (Resolved (Some (JObj [(''capabilities'', JObj [(''textDocumentSync'', JNum 2)])])),
        initialized_with (JObj [(''textDocumentSync'', JNum 2)]) createLspClient)
   \<and> serverSyncKind (initialized_with (JObj [(''textDocumentSync'', JNum 2)]) createLspClient) = JNum 2
   \<and> serverSyncKind (initialized_with (JObj [(''textDocumentSync'', JObj [(''change'', JNum 1)])])
         (initialized_with (JObj [(''textDocumentSync'', JNum 2)]) createLspClient)) = JNum 1
   \<and> serverSyncKind (initialized_with (JObj [(''hoverProvider'', JBool True)]) createLspClient) = JNum 1"
proof -
  let ?res = "Some (JObj [(''capabilities'', JObj [(''textDocumentSync'', JNum 2)])])"
  have e: "initialize_resumed (Resolved ?res) createLspClient
     = (Resolved ?res, initialized_with (JObj [(''textDocumentSync'', JNum 2)]) createLspClient)"
    by (simp add: initialized_with_def initialize_resumed_def capabilities_of_def Let_def)
  have c: "serverCapabilities (initialized_with (JObj [(''textDocumentSync'', JNum 2)]) createLspClient)
     = JObj [(''textDocumentSync'', JNum 2)]"
    by (simp add: initialized_with_def initialize_resumed_def capabilities_of_def Let_def)
  have o: "serverSyncKind (initialized_with (JObj [(''textDocumentSync'', JObj [(''change'', JNum 1)])])
         (initialized_with (JObj [(''textDocumentSync'', JNum 2)]) createLspClient)) = JNum 1"
    "serverSyncKind (initialized_with (JObj [(''hoverProvider'', JBool True)]) createLspClient) = JNum 1"
    by (simp_all add: initialized_with_def initialize_resumed_def capabilities_of_def Let_def
        createLspClient_def)
  show ?thesis using initialize_sync_kind[OF e] e c o by simp
qed

text \<open>
  C7 as stated fails: after an \<^verbatim>\<open>initialize()\<close> that set the kind to Incremental (2), a
  second successful \<^verbatim>\<open>initialize()\<close> whose capabilities have no \<^verbatim>\<open>textDocumentSync\<close>
  leaves the kind at 2.
\<close>

theorem initialize_sync_kind_counterexample:
  "fst (initialize_resumed (Resolved (Some (JObj [(''capabilities'', JObj [(''hoverProvider'', JBool True)])])))
         (initialized_with (JObj [(''textDocumentSync'', JNum 2)]) createLspClient))
     = Resolved (Some (JObj [(''capabilities'', JObj [(''hoverProvider'', JBool True)])]))
   \<and> get_prop (serverCapabilities (initialized_with (JObj [(''hoverProvider'', JBool True)])
         (initialized_with (JObj [(''textDocumentSync'', JNum 2)]) createLspClient)))
       ''textDocumentSync'' = None
   \<and> serverSyncKind (initialized_with (JObj [(''hoverProvider'', JBool True)])
         (initialized_with (JObj [(''textDocumentSync'', JNum 2)]) createLspClient)) = JNum 2"
  by (simp add: initialized_with_def initialize_resumed_def capabilities_of_def Let_def
      createLspClient_def)

end
